theory Spec2Isabelle
  imports Main
begin

section \<open>Data model (src/types.ts)\<close>

text \<open>
  JavaScript numbers are kept abstract: the type parameter \<open>'n\<close> stands for the
  \<^verbatim>\<open>number\<close> type, and the two built-ins that convert between numbers and text
  (\<^verbatim>\<open>parseFloat\<close> and the template-literal conversion) are parameters of the
  functions that call them.  A string is the list of its UTF-8 bytes.  A value that may be
  \<^verbatim>\<open>undefined\<close> or \<^verbatim>\<open>null\<close> is an \<open>option\<close>.
\<close>

record 'n location =
  lat :: 'n
  lng :: 'n
  name :: string

text \<open>
  \<^verbatim>\<open>interface POI\<close> repeats the three fields of \<^verbatim>\<open>Location\<close> and adds its own;
  the fields \<^verbatim>\<open>id\<close> and \<^verbatim>\<open>type\<close> are renamed, the first clashes with the
  identity function.
\<close>

record 'n POI = "'n location" +
  poi_id :: 'n
  poi_type :: string
  website :: "string option"
  description :: "string option"
  address :: "string option"

datatype TransportMode = car | bike | foot

datatype SelectionMode = start_mode | end_mode

section \<open>JavaScript operators used by the services\<close>

text \<open>Truthiness of a value that is a string or \<^verbatim>\<open>undefined\<close>: the \<^verbatim>\<open>Boolean\<close> function.\<close>

definition Boolean :: "string option \<Rightarrow> bool" where
  "Boolean v = (case v of None \<Rightarrow> False | Some s \<Rightarrow> s \<noteq> [])"

text \<open>\<^verbatim>\<open>a || b\<close>: the left operand when it is truthy, the right operand otherwise.\<close>

definition js_or :: "string option \<Rightarrow> string option \<Rightarrow> string option" where
  "js_or a b = (if Boolean a then a else b)"

text \<open>\<^verbatim>\<open>a || "literal"\<close> with a string literal on the right: the result is a string.\<close>

definition js_or_lit :: "string option \<Rightarrow> string \<Rightarrow> string" where
  "js_or_lit a d = (case a of None \<Rightarrow> d | Some s \<Rightarrow> if s = [] then d else s)"

text \<open>\<^verbatim>\<open>xs.filter(Boolean)\<close> on an array of strings and \<^verbatim>\<open>undefined\<close>s.\<close>

fun filter_Boolean :: "string option list \<Rightarrow> string list" where
  "filter_Boolean [] = []"
| "filter_Boolean (None # vs) = filter_Boolean vs"
| "filter_Boolean (Some s # vs) = (if s = [] then filter_Boolean vs else s # filter_Boolean vs)"

text \<open>\<^verbatim>\<open>xs.join(sep)\<close>.\<close>

fun join :: "string \<Rightarrow> string list \<Rightarrow> string" where
  "join sep [] = []"
| "join sep [x] = x"
| "join sep (x # y # ys) = x @ sep @ join sep (y # ys)"

section \<open>POI finder: \<^verbatim>\<open>getPOIs\<close> (osmService)\<close>

text \<open>
  A raw record of the Overpass answer: \<^verbatim>\<open>el.id\<close>, \<^verbatim>\<open>el.lat\<close>, \<^verbatim>\<open>el.lon\<close> and
  \<^verbatim>\<open>el.tags\<close>, which may be missing.
\<close>

type_synonym tags = "string \<rightharpoonup> string"

record 'n element =
  el_id :: 'n
  el_lat :: 'n
  el_lon :: 'n
  el_tags :: "tags option"

text \<open>
  The placeholder literal of \<^verbatim>\<open>getPOIs\<close> (in French, "place of interest without a
  name"); its two accented letters are written as their UTF-8 bytes.
\<close>

definition unnamed_poi :: string where
  "unnamed_poi = ''Lieu d'' @ [CHR 0x27] @ ''int'' @ [CHR 0xC3, CHR 0xA9] @ ''r''
                   @ [CHR 0xC3, CHR 0xAA] @ ''t sans nom''"

text \<open>\<^verbatim>\<open>el.tags || {}\<close>.\<close>

definition tags_of :: "'n element \<Rightarrow> tags" where
  "tags_of el = (case el_tags el of None \<Rightarrow> Map.empty | Some t \<Rightarrow> t)"

text \<open>The arrow function passed to \<^verbatim>\<open>data.elements.map\<close>.\<close>

definition toPOI :: "'n element \<Rightarrow> 'n POI" where
  "toPOI el =
     (let tags = tags_of el;
          address = join '', '' (filter_Boolean
                      [tags ''addr:housenumber'', tags ''addr:street'',
                       tags ''addr:postcode'', tags ''addr:city''])
      in \<lparr> lat = el_lat el,
           lng = el_lon el,
           name = js_or_lit (js_or (tags ''name'') (tags ''description'')) unnamed_poi,
           poi_id = el_id el,
           poi_type = js_or_lit (js_or (tags ''tourism'') (tags ''historic'')) ''poi'',
           website = js_or (tags ''website'') (tags ''url''),
           description = js_or (js_or (js_or (tags ''description'') (tags ''note''))
                                  (tags ''description:fr'')) (tags ''description:en''),
           address = js_or (Some address) None \<rparr>)"

text \<open>
  What \<^verbatim>\<open>await axios.post(...)\<close> gives: the promise is rejected, or it resolves and
  \<^verbatim>\<open>response.data\<close> is falsy, has a falsy \<^verbatim>\<open>elements\<close>, has an \<^verbatim>\<open>elements\<close> that
  is not an array (\<^verbatim>\<open>.map\<close> is then not a function), or has an array of records.
\<close>

datatype 'n overpass =
    OverpassRejected
  | DataFalsy
  | ElementsFalsy
  | ElementsNotArray
  | Elements "'n element list"

datatype js_error = AxiosError | TypeError | URIError | ApiKeyMissing | ServiceError

text \<open>The body of the \<^verbatim>\<open>try\<close> block: every \<^verbatim>\<open>throw\<close> is an \<open>Inl\<close>.\<close>

definition getPOIs_try :: "'n overpass \<Rightarrow> js_error + 'n POI list" where
  "getPOIs_try r =
     (case r of
        OverpassRejected \<Rightarrow> Inl AxiosError
      | DataFalsy \<Rightarrow> Inr []
      | ElementsFalsy \<Rightarrow> Inr []
      | ElementsNotArray \<Rightarrow> Inl TypeError
      | Elements els \<Rightarrow> Inr (filter (\<lambda>poi. name poi \<noteq> unnamed_poi) (map toPOI els)))"

text \<open>\<^verbatim>\<open>getPOIs\<close>: the \<^verbatim>\<open>catch\<close> block returns the empty array.\<close>

definition getPOIs :: "'n overpass \<Rightarrow> js_error + 'n POI list" where
  "getPOIs r = (case getPOIs_try r of Inl e \<Rightarrow> Inr [] | Inr pois \<Rightarrow> Inr pois)"

text \<open>
  The two filters of the query \<^verbatim>\<open>getPOIs\<close> sends.  The operator \<^verbatim>\<open>~\<close> searches the
  value of the tag for a regular expression, here a choice of words: a node passes the
  filter when the value of its tag has one of the words in it.  The service returns the
  nodes that pass the filter on \<^verbatim>\<open>tourism\<close> or the filter on \<^verbatim>\<open>historic\<close>.
\<close>

fun starts_with :: "string \<Rightarrow> string \<Rightarrow> bool" where
  "starts_with [] s = True"
| "starts_with (p # ps) [] = False"
| "starts_with (p # ps) (c # cs) = (p = c \<and> starts_with ps cs)"

fun contains :: "string \<Rightarrow> string \<Rightarrow> bool" where
  "contains w [] = starts_with w []"
| "contains w (c # cs) = (starts_with w (c # cs) \<or> contains w cs)"

definition tourism_filter :: "tags \<Rightarrow> bool" where
  "tourism_filter t =
     (case t ''tourism'' of
        None \<Rightarrow> False
      | Some v \<Rightarrow> list_ex (\<lambda>w. contains w v) [''museum'', ''attraction'', ''artwork'', ''viewpoint''])"

definition historic_filter :: "tags \<Rightarrow> bool" where
  "historic_filter t =
     (case t ''historic'' of
        None \<Rightarrow> False
      | Some v \<Rightarrow> list_ex (\<lambda>w. contains w v) [''castle'', ''ruins'', ''memorial'', ''monument''])"

text \<open>
  The category in the words of the specification: the value of whichever tag matched, that
  is, of the tag whose filter the record passes.
\<close>

definition matched_category :: "'n element \<Rightarrow> string option" where
  "matched_category el =
     (if tourism_filter (tags_of el) then tags_of el ''tourism''
      else if historic_filter (tags_of el) then tags_of el ''historic''
      else None)"

text \<open>Example data: a castle that is run as a hotel.\<close>

definition castle_hotel :: "int element" where
  "castle_hotel = \<lparr> el_id = 3, el_lat = 45, el_lon = 4,
                    el_tags = Some [''tourism'' \<mapsto> ''hotel'', ''historic'' \<mapsto> ''castle'',
                                    ''name'' \<mapsto> ''Chateau de Bagnols''] \<rparr>"

section \<open>Geocoding client: \<^verbatim>\<open>reverseGeocode\<close> (osmService)\<close>

text \<open>\<^verbatim>\<open>s.split(sep)\<close> for a one-character separator; the result is never empty.\<close>

fun split :: "char \<Rightarrow> string \<Rightarrow> string list" where
  "split sep [] = [[]]"
| "split sep (c # cs) =
     (if c = sep then [] # split sep cs
      else (case split sep cs of [] \<Rightarrow> [[c]] | p # ps \<Rightarrow> (c # p) # ps))"

text \<open>
  What \<^verbatim>\<open>await axios.get(...)\<close> gives: the promise is rejected, or it resolves and
  \<^verbatim>\<open>response.data.display_name\<close> is a string, or it resolves and reading
  \<^verbatim>\<open>response.data.display_name.split\<close> throws (no data, no such field, not a string).
\<close>

datatype nominatim_reverse =
    ReverseRejected
  | NoDisplayName
  | DisplayName string

definition unknown_place :: string where
  "unknown_place = ''Lieu inconnu''"

definition reverseGeocode_try :: "nominatim_reverse \<Rightarrow> js_error + string" where
  "reverseGeocode_try r =
     (case r of
        ReverseRejected \<Rightarrow> Inl AxiosError
      | NoDisplayName \<Rightarrow> Inl TypeError
      | DisplayName d \<Rightarrow> Inr (hd (split CHR '','' d)))"

definition reverseGeocode :: "nominatim_reverse \<Rightarrow> js_error + string" where
  "reverseGeocode r =
     (case reverseGeocode_try r of Inl e \<Rightarrow> Inr unknown_place | Inr n \<Rightarrow> Inr n)"

section \<open>Application state (App.tsx)\<close>

text \<open>
  The \<^verbatim>\<open>useState\<close> cells of \<^verbatim>\<open>App\<close>; \<^verbatim>\<open>end\<close> is written \<open>end'\<close>.
  The state setters are record updates.
\<close>

record 'n app =
  start :: "'n location option"
  end' :: "'n location option"
  pois :: "'n POI list"
  focusedPoi :: "'n POI option"
  selectionMode :: SelectionMode
  story :: string
  isGenerating :: bool
  isLoadingPois :: bool
  transportMode :: TransportMode

definition initial_app :: "'n app" where
  "initial_app =
     \<lparr> start = None, end' = None, pois = [], focusedPoi = None, selectionMode = start_mode,
       story = [], isGenerating = False, isLoadingPois = False, transportMode = car \<rparr>"

section \<open>Map clicks: \<^verbatim>\<open>MapClickHandler\<close> (MapComponent.tsx)\<close>

text \<open>
  The \<^verbatim>\<open>click\<close> handler is asynchronous.  Its closure holds the prop
  \<^verbatim>\<open>selectionMode\<close> of the render in which the click happened (the first argument);
  the part after \<^verbatim>\<open>await reverseGeocode(lat, lng)\<close> runs on the state \<open>s\<close> of the
  moment the lookup has answered with \<open>r\<close>.
\<close>

definition click :: "SelectionMode \<Rightarrow> 'n \<Rightarrow> 'n \<Rightarrow> nominatim_reverse
    \<Rightarrow> ('n, 'z) app_scheme \<Rightarrow> js_error + ('n, 'z) app_scheme" where
  "click selMode la lo r s =
     (case reverseGeocode r of
        Inl e \<Rightarrow> Inl e
      | Inr nm \<Rightarrow>
          (let newLoc = \<lparr> lat = la, lng = lo, name = nm \<rparr>
           in if selMode = start_mode
              then Inr (s\<lparr> start := Some newLoc, selectionMode := end_mode \<rparr>)
              else Inr (s\<lparr> end' := Some newLoc \<rparr>)))"

text \<open>
  A sequence of map clicks, each answered before the next click: the handler of a click
  sees the \<^verbatim>\<open>selectionMode\<close> of the current state.
\<close>

fun clicks :: "('n \<times> 'n \<times> nominatim_reverse) list \<Rightarrow> ('n, 'z) app_scheme
    \<Rightarrow> js_error + ('n, 'z) app_scheme" where
  "clicks [] s = Inr s"
| "clicks ((la, lo, r) # cs) s =
     (case click (selectionMode s) la lo r s of Inl e \<Rightarrow> Inl e | Inr s' \<Rightarrow> clicks cs s')"

section \<open>Story generator client: \<^verbatim>\<open>generateStoryStream\<close> (geminiService.ts)\<close>

datatype StoryStyle = HISTORICAL | FANTASY | ADVENTURE | CHILDREN | SCIFI

datatype StoryLanguage = AUTO | FRENCH | ENGLISH | SPANISH | GERMAN

record StoryConfig =
  style :: StoryStyle
  language :: StoryLanguage

text \<open>
  The prompt is a fixed French text with five holes.  The model keeps what fills the
  holes: the two place names, the list of POI names, the style, and the language, where
  \<^verbatim>\<open>'Auto'\<close> has been replaced by the value of \<^verbatim>\<open>StoryLanguage.FRENCH\<close>.
\<close>

record prompt =
  Depart :: string
  Arrivee :: string
  Lieux :: string
  Style :: StoryStyle
  Langue :: StoryLanguage

text \<open>
  The answer of the text service is an asynchronous sequence of chunks, each with a
  \<^verbatim>\<open>text\<close> that may be undefined; the sequence ends, or iterating it throws.
\<close>

datatype stream = StreamEnd | StreamError | Chunk "string option" stream

text \<open>What reaches the text service: the construction of the client and the request.\<close>

datatype genai_call = NewGoogleGenAI string | GenerateContentStream string prompt

definition model :: string where
  "model = ''gemini-3-flash-preview''"

definition e_acute :: string where
  "e_acute = [CHR 0xC3, CHR 0xA9]"

definition mysterious_places :: string where
  "mysterious_places = ''quelques lieux myst'' @ e_acute @ ''rieux''"

text \<open>
  \<^verbatim>\<open>generateStoryStream\<close>.  The first argument is \<^verbatim>\<open>process.env.API_KEY\<close>, the second
  the text service (it answers a request with a stream or throws).  The result is what the
  promise settles to, with the calls made to the service in program order.  The
  \<^verbatim>\<open>catch\<close> block logs and throws the same error again.
\<close>

definition generateStoryStream :: "string option \<Rightarrow> (string \<Rightarrow> prompt \<Rightarrow> js_error + stream)
    \<Rightarrow> ('n, 'a) location_scheme \<Rightarrow> ('n, 'b) location_scheme \<Rightarrow> ('n, 'c) POI_scheme list
    \<Rightarrow> StoryConfig \<Rightarrow> (js_error + stream) \<times> genai_call list" where
  "generateStoryStream API_KEY service st en ps config =
     (if \<not> Boolean API_KEY then (Inl ApiKeyMissing, [])
      else
        (let apiKey = (case API_KEY of Some k \<Rightarrow> k | None \<Rightarrow> []);
             poiNames = join '', '' (map name ps);
             p = \<lparr> Depart = name st,
                   Arrivee = name en,
                   Lieux = js_or_lit (Some poiNames) mysterious_places,
                   Style = style config,
                   Langue = (if language config = AUTO then FRENCH else language config) \<rparr>
         in ((case service model p of Inl error \<Rightarrow> Inl error | Inr response \<Rightarrow> Inr response),
             [NewGoogleGenAI apiKey, GenerateContentStream model p])))"

section \<open>Story generation: \<^verbatim>\<open>handleGenerateStory\<close> (App.tsx)\<close>

text \<open>
  The state of \<^verbatim>\<open>App\<close> together with the calls that have reached the text service.
\<close>

record 'n story_run = "'n app" +
  genai_calls :: "genai_call list"

definition apology :: string where
  "apology = ''D'' @ e_acute @ ''sol'' @ e_acute @ '', une erreur est survenue lors de la cr''
     @ e_acute @ ''ation de l'' @ [CHR 0x27] @ ''histoire. Veuillez v'' @ e_acute
     @ ''rifier votre cl'' @ e_acute @ '' API.''"

text \<open>
  One turn of the \<^verbatim>\<open>for await\<close> loop on a chunk with text \<open>t\<close>: the local variable
  \<^verbatim>\<open>fullStory\<close> and the state.
\<close>

definition on_chunk :: "string option \<Rightarrow> string \<Rightarrow> ('n, 'z) app_scheme
    \<Rightarrow> string \<times> ('n, 'z) app_scheme" where
  "on_chunk t fullStory s =
     (if Boolean t
      then (let fullStory' = fullStory @ (case t of Some x \<Rightarrow> x | None \<Rightarrow> [])
            in (fullStory', s\<lparr> story := fullStory' \<rparr>))
      else (fullStory, s))"

text \<open>
  The loop: the states after each turn, and the error if iterating the stream throws.
\<close>

primrec for_await :: "stream \<Rightarrow> string \<Rightarrow> ('n, 'z) app_scheme
    \<Rightarrow> ('n, 'z) app_scheme list \<times> js_error option" where
  "for_await StreamEnd fullStory s = ([], None)"
| "for_await StreamError fullStory s = ([], Some ServiceError)"
| "for_await (Chunk t rest) fullStory s =
     (case on_chunk t fullStory s of
        (fullStory', s') \<Rightarrow>
          (case for_await rest fullStory' s' of (ss, e) \<Rightarrow> (s' # ss, e)))"

text \<open>
  \<^verbatim>\<open>handleGenerateStory\<close>: the successive states, in program order.  The list is empty
  when the guard returns.  Otherwise the first state is the one after
  \<^verbatim>\<open>setIsGenerating(true); setStory('')\<close>, the second the one after the call of
  \<^verbatim>\<open>generateStoryStream\<close>, then one state for each chunk of the stream, and last the
  state after \<^verbatim>\<open>catch\<close> and \<^verbatim>\<open>finally\<close>.  The button that calls the handler is
  disabled while \<^verbatim>\<open>isGenerating\<close> holds (Sidebar.tsx), so two runs do not overlap.
\<close>

definition handleGenerateStory :: "string option \<Rightarrow> (string \<Rightarrow> prompt \<Rightarrow> js_error + stream)
    \<Rightarrow> StoryConfig \<Rightarrow> 'n story_run \<Rightarrow> 'n story_run list" where
  "handleGenerateStory API_KEY service config s =
     (case (start s, end' s) of
        (Some st, Some en) \<Rightarrow>
          (let s1 = s\<lparr> isGenerating := True, story := [] \<rparr>;
               (r, calls) = generateStoryStream API_KEY service st en (pois s) config;
               s2 = s1\<lparr> genai_calls := genai_calls s1 @ calls \<rparr>
           in s1 # s2 #
              (case r of
                 Inl error \<Rightarrow> [s2\<lparr> story := apology, isGenerating := False \<rparr>]
               | Inr responseStream \<Rightarrow>
                   (case for_await responseStream [] s2 of
                      (ss, None) \<Rightarrow> ss @ [(last (s2 # ss))\<lparr> isGenerating := False \<rparr>]
                    | (ss, Some error) \<Rightarrow>
                        ss @ [(last (s2 # ss))\<lparr> story := apology, isGenerating := False \<rparr>])))
      | _ \<Rightarrow> [])"

text \<open>The chunk texts of a stream, in arrival order.\<close>

primrec fragments :: "stream \<Rightarrow> string option list" where
  "fragments StreamEnd = []"
| "fragments StreamError = []"
| "fragments (Chunk t rest) = t # fragments rest"

section \<open>The POI effect of \<^verbatim>\<open>App\<close> (App.tsx, lines 55 to 74)\<close>

text \<open>
  The state of \<^verbatim>\<open>App\<close> together with the calls of \<^verbatim>\<open>getPOIs\<close> that have not
  resolved yet, oldest first; each is recorded by the \<^verbatim>\<open>end\<close> its closure holds.
\<close>

record 'n poi_run = "'n app" +
  poi_fetches :: "'n location list"

definition initial_poi_run :: "'n poi_run" where
  "initial_poi_run =
     \<lparr> start = None, end' = None, pois = [], focusedPoi = None, selectionMode = start_mode,
       story = [], isGenerating = False, isLoadingPois = False, transportMode = car,
       poi_fetches = [] \<rparr>"

text \<open>\<^verbatim>\<open>fetchPois\<close> up to its \<^verbatim>\<open>await\<close>: the effect runs it when \<^verbatim>\<open>end\<close> has changed.\<close>

definition fetchPois :: "'n poi_run \<Rightarrow> 'n poi_run" where
  "fetchPois s =
     (case end' s of
        Some e \<Rightarrow> s\<lparr> isLoadingPois := True, poi_fetches := poi_fetches s @ [e] \<rparr>
      | None \<Rightarrow> s\<lparr> pois := [] \<rparr>)"

text \<open>
  \<^verbatim>\<open>fetchPois\<close> after its \<^verbatim>\<open>await\<close>, when the call of \<^verbatim>\<open>getPOIs\<close> has settled on the
  answer \<open>r\<close> of the tagged-data service: \<^verbatim>\<open>try\<close>, \<^verbatim>\<open>catch\<close> and \<^verbatim>\<open>finally\<close>.
  The effect returns no cleanup function and this part reads nothing of the current state:
  it runs the same whatever \<^verbatim>\<open>end\<close> is by then.
\<close>

definition fetchPois_resume :: "'n overpass \<Rightarrow> 'n poi_run \<Rightarrow> 'n poi_run" where
  "fetchPois_resume r s =
     (case getPOIs r of
        Inr newPois \<Rightarrow> s\<lparr> pois := newPois, isLoadingPois := False \<rparr>
      | Inl error \<Rightarrow> s\<lparr> pois := [], isLoadingPois := False \<rparr>)"

text \<open>
  What happens to the effect: the end coordinate is set (\<^verbatim>\<open>setEnd\<close> takes a
  \<^verbatim>\<open>Location\<close>), or the pending call number \<open>i\<close> resolves.  The tagged-data service is a
  function of the coordinates it is asked about; the radius is the constant 2000.
\<close>

datatype 'n poi_event = SetEnd "'n location" | PoisArrive nat

definition poi_step :: "('n \<Rightarrow> 'n \<Rightarrow> 'n overpass) \<Rightarrow> 'n poi_run \<Rightarrow> 'n poi_event \<Rightarrow> 'n poi_run" where
  "poi_step service s ev =
     (case ev of
        SetEnd e \<Rightarrow> fetchPois (s\<lparr> end' := Some e \<rparr>)
      | PoisArrive i \<Rightarrow>
          if i < length (poi_fetches s)
          then (let e = poi_fetches s ! i
                in fetchPois_resume (service (lat e) (lng e))
                     (s\<lparr> poi_fetches := take i (poi_fetches s) @ drop (Suc i) (poi_fetches s) \<rparr>))
          else s)"

definition poi_steps :: "('n \<Rightarrow> 'n \<Rightarrow> 'n overpass) \<Rightarrow> 'n poi_run \<Rightarrow> 'n poi_event list \<Rightarrow> 'n poi_run" where
  "poi_steps service s evs = foldl (poi_step service) s evs"

text \<open>The list \<^verbatim>\<open>getPOIs\<close> gives for an end coordinate.\<close>

definition pois_near :: "('n \<Rightarrow> 'n \<Rightarrow> 'n overpass) \<Rightarrow> 'n location \<Rightarrow> 'n POI list" where
  "pois_near service e = (case getPOIs (service (lat e) (lng e)) of Inr ps \<Rightarrow> ps | Inl error \<Rightarrow> [])"

text \<open>Calls resolve in the order they were made: it is always the oldest that resolves.\<close>

fun in_issue_order :: "'n poi_event list \<Rightarrow> bool" where
  "in_issue_order [] = True"
| "in_issue_order (SetEnd e # evs) = in_issue_order evs"
| "in_issue_order (PoisArrive i # evs) = (i = 0 \<and> in_issue_order evs)"

text \<open>
  The invariant of runs in issue order: when nothing is pending the list is the one for the
  current end coordinate, and otherwise the newest pending call is for the current end
  coordinate.
\<close>

definition poi_inv :: "('n \<Rightarrow> 'n \<Rightarrow> 'n overpass) \<Rightarrow> 'n poi_run \<Rightarrow> bool" where
  "poi_inv service s \<longleftrightarrow>
     (poi_fetches s = [] \<longrightarrow>
        pois s = (case end' s of None \<Rightarrow> [] | Some e \<Rightarrow> pois_near service e))
     \<and> (poi_fetches s \<noteq> [] \<longrightarrow> end' s = Some (last (poi_fetches s)))"

text \<open>Example data: two destinations and a tagged-data service with one museum near each.\<close>

definition paris :: "int location" where
  "paris = \<lparr> lat = 48, lng = 2, name = ''Paris'' \<rparr>"

definition lyon :: "int location" where
  "lyon = \<lparr> lat = 45, lng = 4, name = ''Lyon'' \<rparr>"

definition louvre :: "int element" where
  "louvre = \<lparr> el_id = 1, el_lat = 48, el_lon = 2,
              el_tags = Some [''tourism'' \<mapsto> ''museum'', ''name'' \<mapsto> ''Louvre''] \<rparr>"

definition confluences :: "int element" where
  "confluences = \<lparr> el_id = 2, el_lat = 45, el_lon = 4,
                   el_tags = Some [''tourism'' \<mapsto> ''museum'', ''name'' \<mapsto> ''Confluences''] \<rparr>"

definition museums :: "int \<Rightarrow> int \<Rightarrow> int overpass" where
  "museums la lo = (if la = 48 \<and> lo = 2 then Elements [louvre]
                    else if la = 45 \<and> lo = 4 then Elements [confluences]
                    else Elements [])"

section \<open>Route overlay: \<^verbatim>\<open>RoutingMachine\<close> and \<^verbatim>\<open>MapComponent\<close> (MapComponent.tsx)\<close>

record 'n RouteSummary =
  totalDistance :: 'n
  totalTime :: 'n

text \<open>
  What \<^verbatim>\<open>globalL.Routing.control\<close> is given: the two waypoints, the profile of the
  router and the colour of the line.  The routing widget issues the route request for a
  control it has created.
\<close>

record 'n control =
  waypoints :: "('n \<times> 'n) list"
  profile :: string
  color :: string

text \<open>
  The state of \<^verbatim>\<open>App\<close> (the props \<^verbatim>\<open>start\<close>, \<^verbatim>\<open>end\<close> and \<^verbatim>\<open>transportMode\<close> come
  from it), the cell \<^verbatim>\<open>routeSummary\<close> of \<^verbatim>\<open>MapComponent\<close>, the reference
  \<^verbatim>\<open>routingControlRef\<close>, and the widget's side: the controls created so far (a control
  is known by its position in this list) and those that are on the map.
\<close>

record 'n map_run = "'n app" +
  routeSummary :: "'n RouteSummary option"
  routingControlRef :: "nat option"
  controls :: "'n control list"
  attached :: "nat list"

definition initial_map_run :: "'n map_run" where
  "initial_map_run =
     \<lparr> start = None, end' = None, pois = [], focusedPoi = None, selectionMode = start_mode,
       story = [], isGenerating = False, isLoadingPois = False, transportMode = car,
       routeSummary = None, routingControlRef = None, controls = [], attached = [] \<rparr>"

text \<open>
  The routing library behind \<^verbatim>\<open>window.L\<close>: not loaded, or loaded with a constructor
  that throws, or loaded and working.
\<close>

datatype routing_library = Missing | Throwing | Loaded

text \<open>
  The function returned by the effect, which React runs before the next run of the effect.
  Inside \<^verbatim>\<open>MapContainer\<close> the hook \<^verbatim>\<open>useMap\<close> gives the map, so the guards on
  \<^verbatim>\<open>map\<close> pass; \<^verbatim>\<open>map.removeControl\<close> is taken to succeed.
\<close>

definition effect_cleanup :: "'n map_run \<Rightarrow> 'n map_run" where
  "effect_cleanup s =
     (case routingControlRef s of
        Some c \<Rightarrow> s\<lparr> attached := removeAll c (attached s) \<rparr>
      | None \<Rightarrow> s)"

text \<open>Lines 102 to 112 of the effect: reset the summary, remove the previous control.\<close>

definition teardown :: "'n map_run \<Rightarrow> 'n map_run" where
  "teardown s =
     (let s1 = s\<lparr> routeSummary := None \<rparr>
      in case routingControlRef s1 of
           Some c \<Rightarrow> s1\<lparr> attached := removeAll c (attached s1), routingControlRef := None \<rparr>
         | None \<Rightarrow> s1)"

definition profile_of :: "TransportMode \<Rightarrow> string" where
  "profile_of m = (let p = ''driving'';
                       p = (if m = bike then ''cycling'' else p);
                       p = (if m = foot then ''walking'' else p)
                   in p)"

definition color_of :: "TransportMode \<Rightarrow> string" where
  "color_of m = (if m = foot then ''#10b981'' else if m = bike then ''#f59e0b'' else ''#3b82f6'')"

text \<open>The control the effect builds for a start, an end and a transport mode.\<close>

definition control_for :: "'n location \<Rightarrow> 'n location \<Rightarrow> TransportMode \<Rightarrow> 'n control" where
  "control_for st en m =
     \<lparr> waypoints = [(lat st, lng st), (lat en, lng en)],
       profile = profile_of m,
       color = color_of m \<rparr>"

text \<open>
  Lines 114 to 163 of the effect: with both waypoints and a working library, create the
  control, subscribe to its \<^verbatim>\<open>routesfound\<close> event, add it to the map and keep it in the
  reference.
\<close>

definition request :: "routing_library \<Rightarrow> 'n map_run \<Rightarrow> 'n map_run" where
  "request lib s =
     (case (start s, end' s) of
        (Some st, Some en) \<Rightarrow>
          (case lib of
             Missing \<Rightarrow> s
           | Throwing \<Rightarrow> s
           | Loaded \<Rightarrow>
               (let c = length (controls s)
                in s\<lparr> controls := controls s @ [control_for st en (transportMode s)],
                      attached := attached s @ [c],
                      routingControlRef := Some c \<rparr>))
      | _ \<Rightarrow> s)"

definition RoutingMachine_effect :: "routing_library \<Rightarrow> 'n map_run \<Rightarrow> 'n map_run" where
  "RoutingMachine_effect lib s = request lib (teardown s)"

text \<open>
  A change of a dependency: the cleanup of the previous run, then the effect.  The change
  of the prop and this run of the effect make one step of the model.
\<close>

definition rerun :: "routing_library \<Rightarrow> 'n map_run \<Rightarrow> 'n map_run" where
  "rerun lib s = RoutingMachine_effect lib (effect_cleanup s)"

text \<open>
  The handler of \<^verbatim>\<open>routesfound\<close>; \<open>routes\<close> is \<^verbatim>\<open>e.routes\<close>, each route given by its
  summary.
\<close>

definition on_routesfound :: "'n RouteSummary list option \<Rightarrow> 'n map_run \<Rightarrow> 'n map_run" where
  "on_routesfound routes s =
     (case routes of
        Some (r # rs) \<Rightarrow> s\<lparr> routeSummary := Some r \<rparr>
      | _ \<Rightarrow> s)"

text \<open>
  What happens to the component: one of its props is set, or the control number \<open>c\<close>
  delivers \<^verbatim>\<open>routesfound\<close> with the routes the routing service found for its request.
  The routing service is a function of the request.  Setting the transport mode to the
  value it has changes no state, and React then runs no effect; a location is a fresh
  object each time.  The source subscribes the handler to every control it creates and
  never unsubscribes it, and it keeps no mark of the inputs a request was issued for: the
  handler runs for any control that delivers the event.
\<close>

datatype 'n map_event =
    StartChanged "'n location"
  | EndChanged "'n location"
  | ModeChanged TransportMode
  | RoutesFound nat

definition map_step :: "routing_library \<Rightarrow> ('n control \<Rightarrow> 'n RouteSummary list option)
    \<Rightarrow> 'n map_run \<Rightarrow> 'n map_event \<Rightarrow> 'n map_run" where
  "map_step lib osrm s ev =
     (case ev of
        StartChanged l \<Rightarrow> rerun lib (s\<lparr> start := Some l \<rparr>)
      | EndChanged l \<Rightarrow> rerun lib (s\<lparr> end' := Some l \<rparr>)
      | ModeChanged m \<Rightarrow> if m = transportMode s then s else rerun lib (s\<lparr> transportMode := m \<rparr>)
      | RoutesFound c \<Rightarrow>
          if c < length (controls s) then on_routesfound (osrm (controls s ! c)) s else s)"

definition map_steps :: "routing_library \<Rightarrow> ('n control \<Rightarrow> 'n RouteSummary list option)
    \<Rightarrow> 'n map_run \<Rightarrow> 'n map_event list \<Rightarrow> 'n map_run" where
  "map_steps lib osrm s evs = foldl (map_step lib osrm) s evs"

text \<open>The request for the current inputs, when both waypoints are set.\<close>

definition current_request :: "'n map_run \<Rightarrow> 'n control option" where
  "current_request s =
     (case (start s, end' s) of
        (Some st, Some en) \<Rightarrow> Some (control_for st en (transportMode s))
      | _ \<Rightarrow> None)"

text \<open>
  The displayed summary is up to date: there is none, or it is the summary of the first
  route found for the request of the current inputs.
\<close>

definition up_to_date :: "('n control \<Rightarrow> 'n RouteSummary list option) \<Rightarrow> 'n map_run \<Rightarrow> bool" where
  "up_to_date osrm s =
     (case routeSummary s of
        None \<Rightarrow> True
      | Some sm \<Rightarrow>
          (case current_request s of
             None \<Rightarrow> False
           | Some c \<Rightarrow> (case osrm c of Some (r # rs) \<Rightarrow> r = sm | _ \<Rightarrow> False)))"

text \<open>
  A run in which a control delivers \<^verbatim>\<open>routesfound\<close> only while it is the one kept in
  \<^verbatim>\<open>routingControlRef\<close>: a control that has been removed stays silent.
\<close>

fun removed_silent :: "routing_library \<Rightarrow> ('n control \<Rightarrow> 'n RouteSummary list option)
    \<Rightarrow> 'n map_run \<Rightarrow> 'n map_event list \<Rightarrow> bool" where
  "removed_silent lib osrm s [] = True"
| "removed_silent lib osrm s (ev # evs) =
     ((case ev of RoutesFound c \<Rightarrow> routingControlRef s = Some c | _ \<Rightarrow> True)
      \<and> removed_silent lib osrm (map_step lib osrm s ev) evs)"

text \<open>
  The invariant of the overlay: the control in the reference, if any, is the only one on
  the map and was built for the current inputs; with no reference the map has no control.
\<close>

definition overlay_inv :: "'n map_run \<Rightarrow> bool" where
  "overlay_inv s =
     (case routingControlRef s of
        None \<Rightarrow> attached s = []
      | Some c \<Rightarrow> attached s = [c] \<and> c < length (controls s)
                  \<and> current_request s = Some (controls s ! c))"

text \<open>Example data: a third place and a routing service whose answer depends on the request.\<close>

definition nice :: "int location" where
  "nice = \<lparr> lat = 43, lng = 7, name = ''Nice'' \<rparr>"

definition router :: "int control \<Rightarrow> int RouteSummary list option" where
  "router c =
     (case waypoints c of
        [(la, lo), (la', lo')] \<Rightarrow>
          Some [\<lparr> totalDistance = 1000 * (abs (la - la') + abs (lo - lo')),
                  totalTime = (if profile c = ''walking'' then 720 else if profile c = ''cycling''
                               then 240 else 60) * (abs (la - la') + abs (lo - lo')) \<rparr>]
      | _ \<Rightarrow> None)"

section \<open>URI components: \<^verbatim>\<open>encodeURIComponent\<close> and \<^verbatim>\<open>decodeURIComponent\<close>\<close>

text \<open>
  The two built-ins on strings given by their UTF-8 bytes.  A string with a lone surrogate
  has no UTF-8 form; it is stood for by a byte list that is not well formed.
\<close>

definition hex_digit :: "nat \<Rightarrow> char" where
  "hex_digit d = ''0123456789ABCDEF'' ! d"

definition hex_value :: "char \<Rightarrow> nat option" where
  "hex_value c =
     (let n = (of_char c :: nat)
      in if 48 \<le> n \<and> n \<le> 57 then Some (n - 48)
         else if 65 \<le> n \<and> n \<le> 70 then Some (n - 55)
         else if 97 \<le> n \<and> n \<le> 102 then Some (n - 87)
         else None)"

text \<open>The characters \<^verbatim>\<open>encodeURIComponent\<close> leaves as they are.\<close>

definition unreserved :: "char \<Rightarrow> bool" where
  "unreserved c \<longleftrightarrow>
     c \<in> set ''ABCDEFGHIJKLMNOPQRSTUVWXYZabcdefghijklmnopqrstuvwxyz0123456789-_.!~*()''
     \<or> c = CHR 0x27"

definition escape :: "char \<Rightarrow> string" where
  "escape c = [CHR ''%'', hex_digit (of_char c div 16), hex_digit (of_char c mod 16)]"

definition continuation :: "nat \<Rightarrow> bool" where
  "continuation b \<longleftrightarrow> 0x80 \<le> b \<and> b \<le> 0xBF"

text \<open>The UTF-8 encodings of one code point in two, three or four bytes.\<close>

fun utf8_sequence :: "nat list \<Rightarrow> bool" where
  "utf8_sequence [b1, b2] \<longleftrightarrow> 0xC2 \<le> b1 \<and> b1 \<le> 0xDF \<and> continuation b2"
| "utf8_sequence [b1, b2, b3] \<longleftrightarrow>
     (b1 = 0xE0 \<and> 0xA0 \<le> b2 \<and> b2 \<le> 0xBF
      \<or> 0xE1 \<le> b1 \<and> b1 \<le> 0xEC \<and> continuation b2
      \<or> b1 = 0xED \<and> 0x80 \<le> b2 \<and> b2 \<le> 0x9F
      \<or> 0xEE \<le> b1 \<and> b1 \<le> 0xEF \<and> continuation b2)
     \<and> continuation b3"
| "utf8_sequence [b1, b2, b3, b4] \<longleftrightarrow>
     (b1 = 0xF0 \<and> 0x90 \<le> b2 \<and> b2 \<le> 0xBF
      \<or> 0xF1 \<le> b1 \<and> b1 \<le> 0xF3 \<and> continuation b2
      \<or> b1 = 0xF4 \<and> 0x80 \<le> b2 \<and> b2 \<le> 0x8F)
     \<and> continuation b3 \<and> continuation b4"
| "utf8_sequence bs \<longleftrightarrow> False"

text \<open>The number of leading one bits of a byte; 5 stands for more than four.\<close>

definition leading_ones :: "nat \<Rightarrow> nat" where
  "leading_ones b =
     (if b < 0x80 then 0 else if b < 0xC0 then 1 else if b < 0xE0 then 2
      else if b < 0xF0 then 3 else if b < 0xF8 then 4 else 5)"

text \<open>A string is well formed when its bytes are the UTF-8 encodings of code points.\<close>

fun well_formed :: "string \<Rightarrow> bool" where
  "well_formed [] \<longleftrightarrow> True"
| "well_formed (c # cs) \<longleftrightarrow>
     (let n = leading_ones (of_char c)
      in if n = 0 then well_formed cs
         else if n = 2 then
           (case cs of
              c2 # r \<Rightarrow> utf8_sequence [of_char c, of_char c2] \<and> well_formed r
            | _ \<Rightarrow> False)
         else if n = 3 then
           (case cs of
              c2 # c3 # r \<Rightarrow> utf8_sequence [of_char c, of_char c2, of_char c3] \<and> well_formed r
            | _ \<Rightarrow> False)
         else if n = 4 then
           (case cs of
              c2 # c3 # c4 # r \<Rightarrow>
                utf8_sequence [of_char c, of_char c2, of_char c3, of_char c4] \<and> well_formed r
            | _ \<Rightarrow> False)
         else False)"

text \<open>
  \<^verbatim>\<open>encodeURIComponent\<close>: a \<^verbatim>\<open>URIError\<close> on a string that is not well formed;
  otherwise every byte that is not an unreserved character becomes its escape.
\<close>

definition encodeURIComponent :: "string \<Rightarrow> js_error + string" where
  "encodeURIComponent s =
     (if well_formed s
      then Inr (concat (map (\<lambda>c. if unreserved c then [c] else escape c) s))
      else Inl URIError)"

definition octet :: "char \<Rightarrow> char \<Rightarrow> nat option" where
  "octet h l =
     (case hex_value h of
        None \<Rightarrow> None
      | Some a \<Rightarrow> (case hex_value l of None \<Rightarrow> None | Some b \<Rightarrow> Some (16 * a + b)))"

definition emit :: "string \<Rightarrow> js_error + string \<Rightarrow> js_error + string" where
  "emit cs r = (case r of Inl e \<Rightarrow> Inl e | Inr t \<Rightarrow> Inr (cs @ t))"

text \<open>
  The decoding loop.  \<open>octets\<close> are the bytes read so far of a code point in several
  bytes and \<open>j\<close> is the number of its bytes still to come, each as an escape.  An escape
  that is cut short or is not hexadecimal, a first byte with one or more than four leading
  one bits, and bytes that are not the encoding of a code point are a \<^verbatim>\<open>URIError\<close>.
\<close>

fun Decode :: "nat list \<Rightarrow> nat \<Rightarrow> string \<Rightarrow> js_error + string" where
  "Decode octets j [] = (if j = 0 then Inr [] else Inl URIError)"
| "Decode octets j (c # s) =
     (if j = 0
      then
        (if c \<noteq> CHR ''%'' then emit [c] (Decode [] 0 s)
         else
           (case s of
              h # l # rest \<Rightarrow>
                (case octet h l of
                   None \<Rightarrow> Inl URIError
                 | Some b \<Rightarrow>
                     (let n = leading_ones b
                      in if n = 0 then emit [char_of b] (Decode [] 0 rest)
                         else if n = 1 \<or> 4 < n then Inl URIError
                         else Decode [b] (n - 1) rest))
            | _ \<Rightarrow> Inl URIError))
      else
        (if c \<noteq> CHR ''%'' then Inl URIError
         else
           (case s of
              h # l # rest \<Rightarrow>
                (case octet h l of
                   None \<Rightarrow> Inl URIError
                 | Some b \<Rightarrow>
                     (if j = 1
                      then (if utf8_sequence (octets @ [b])
                            then emit (map char_of (octets @ [b])) (Decode [] 0 rest)
                            else Inl URIError)
                      else Decode (octets @ [b]) (j - 1) rest))
            | _ \<Rightarrow> Inl URIError)))"

definition decodeURIComponent :: "string \<Rightarrow> js_error + string" where
  "decodeURIComponent s = Decode [] 0 s"

section \<open>The shareable link: the two URL effects of \<^verbatim>\<open>App\<close> (App.tsx, lines 20 to 52)\<close>

text \<open>
  The query parameters: \<^verbatim>\<open>params.get(k)\<close> is \<open>p k\<close> and \<^verbatim>\<open>params.set(k, v)\<close> is
  \<open>p(k \<mapsto> v)\<close>.
\<close>

type_synonym URLSearchParams = "string \<rightharpoonup> string"

text \<open>The values of the type \<^verbatim>\<open>TransportMode\<close> are strings.\<close>

definition mode_string :: "TransportMode \<Rightarrow> string" where
  "mode_string m = (case m of car \<Rightarrow> ''car'' | bike \<Rightarrow> ''bike'' | foot \<Rightarrow> ''foot'')"

text \<open>
  \<^verbatim>\<open>if (loc) params.set(key, `${loc.lat}|${loc.lng}|${encodeURIComponent(loc.name)}`)\<close>;
  \<open>ToString\<close> is the conversion of a number in a template literal.
\<close>

definition set_location :: "('n \<Rightarrow> string) \<Rightarrow> string \<Rightarrow> 'n location option \<Rightarrow> URLSearchParams
    \<Rightarrow> js_error + URLSearchParams" where
  "set_location ToString key loc p =
     (case loc of
        None \<Rightarrow> Inr p
      | Some l \<Rightarrow>
          (case encodeURIComponent (name l) of
             Inl e \<Rightarrow> Inl e
           | Inr nm \<Rightarrow> Inr (p(key \<mapsto> ToString (lat l) @ ''|'' @ ToString (lng l) @ ''|'' @ nm))))"

text \<open>The effect that writes the state into the URL (lines 44 to 52).\<close>

definition update_url :: "('n \<Rightarrow> string) \<Rightarrow> ('n, 'z) app_scheme \<Rightarrow> js_error + URLSearchParams" where
  "update_url ToString s =
     (case set_location ToString ''start'' (start s) Map.empty of
        Inl e \<Rightarrow> Inl e
      | Inr p1 \<Rightarrow>
          (case set_location ToString ''end'' (end' s) p1 of
             Inl e \<Rightarrow> Inl e
           | Inr p2 \<Rightarrow> Inr (p2(''mode'' \<mapsto> mode_string (transportMode s)))))"

text \<open>
  \<^verbatim>\<open>xs[i]\<close>, undefined out of range, and the string a built-in makes of an argument that
  is a string or undefined.
\<close>

definition at_index :: "'a list \<Rightarrow> nat \<Rightarrow> 'a option" where
  "at_index xs i = (if i < length xs then Some (xs ! i) else None)"

definition string_of :: "string option \<Rightarrow> string" where
  "string_of v = (case v of None \<Rightarrow> ''undefined'' | Some x \<Rightarrow> x)"

text \<open>
  The body of a \<^verbatim>\<open>try\<close> block of the effect that reads the URL:
  \<^verbatim>\<open>const [lat, lng, name] = param.split('|')\<close> and the object given to the setter.
\<close>

definition parse_location :: "(string \<Rightarrow> 'n) \<Rightarrow> string \<Rightarrow> js_error + 'n location" where
  "parse_location parseFloat param =
     (let parts = split CHR ''|'' param;
          la = at_index parts 0;
          lo = at_index parts 1;
          nm = at_index parts 2
      in case decodeURIComponent (string_of nm) of
           Inl e \<Rightarrow> Inl e
         | Inr n \<Rightarrow> Inr \<lparr> lat = parseFloat (string_of la), lng = parseFloat (string_of lo),
                          name = n \<rparr>)"

text \<open>The effect that reads the URL on mount (lines 20 to 41).\<close>

definition load_url :: "(string \<Rightarrow> 'n) \<Rightarrow> URLSearchParams \<Rightarrow> ('n, 'z) app_scheme
    \<Rightarrow> js_error + ('n, 'z) app_scheme" where
  "load_url parseFloat params s =
     (let startParam = params ''start'';
          endParam = params ''end'';
          modeParam = params ''mode'';
          s1 = (if Boolean startParam
                then (case parse_location parseFloat (string_of startParam) of
                        Inl e \<Rightarrow> s
                      | Inr l \<Rightarrow> s\<lparr> start := Some l \<rparr>)
                else s);
          s2 = (if Boolean endParam
                then (case parse_location parseFloat (string_of endParam) of
                        Inl e \<Rightarrow> s1
                      | Inr l \<Rightarrow> s1\<lparr> end' := Some l \<rparr>)
                else s1);
          s3 = (if Boolean modeParam \<and> string_of modeParam \<in> set [''car'', ''bike'', ''foot'']
                then s2\<lparr> transportMode :=
                       (if modeParam = Some ''car'' then car
                        else if modeParam = Some ''bike'' then bike else foot) \<rparr>
                else s2)
      in Inr s3)"

section \<open>Properties of the JavaScript operators\<close>

lemma split_nonempty: "split sep s \<noteq> []"
  by (induction s) (auto split: list.splits)

lemma js_or_lit_cases:
  "js_or_lit (js_or a b) d =
     (case a of
        Some x \<Rightarrow> if x \<noteq> [] then x else js_or_lit b d
      | None \<Rightarrow> js_or_lit b d)"
  by (simp add: js_or_def js_or_lit_def Boolean_def split: option.splits)

lemma filter_Boolean_eq:
  "filter_Boolean vs =
     concat (map (\<lambda>v. case v of Some s \<Rightarrow> if s = [] then [] else [s] | None \<Rightarrow> []) vs)"
  by (induction vs rule: filter_Boolean.induct) simp_all

lemma filter_Boolean_nonempty: "s \<in> set (filter_Boolean vs) \<Longrightarrow> s \<noteq> []"
  by (induction vs rule: filter_Boolean.induct) (auto split: if_splits)

lemma join_empty: "(\<forall>s \<in> set ps. s \<noteq> []) \<Longrightarrow> join sep ps = [] \<longleftrightarrow> ps = []"
  by (induction sep ps rule: join.induct) auto

section \<open>The POI finder\<close>

lemma getPOIs_total: "\<exists>ps. getPOIs r = Inr ps"
  by (cases r) (simp_all add: getPOIs_def getPOIs_try_def)

lemma getPOIs_Elements:
  "getPOIs (Elements els) = Inr (filter (\<lambda>p. name p \<noteq> unnamed_poi) (map toPOI els))"
  by (simp add: getPOIs_def getPOIs_try_def)

lemma getPOIs_named: "getPOIs r = Inr ps \<Longrightarrow> p \<in> set ps \<Longrightarrow> name p \<noteq> unnamed_poi"
  by (cases r) (auto simp add: getPOIs_def getPOIs_try_def)

lemma name_toPOI:
  "name (toPOI el) =
     (case tags_of el ''name'' of
        Some n \<Rightarrow> if n \<noteq> [] then n else js_or_lit (tags_of el ''description'') unnamed_poi
      | None \<Rightarrow> js_or_lit (tags_of el ''description'') unnamed_poi)"
  by (simp add: toPOI_def Let_def js_or_lit_cases)

lemma poi_type_toPOI:
  "poi_type (toPOI el) =
     (case tags_of el ''tourism'' of
        Some t \<Rightarrow> if t \<noteq> [] then t else js_or_lit (tags_of el ''historic'') ''poi''
      | None \<Rightarrow> js_or_lit (tags_of el ''historic'') ''poi'')"
  by (simp add: toPOI_def Let_def js_or_lit_cases)

lemma website_toPOI:
  "website (toPOI el) =
     (case tags_of el ''website'' of
        Some w \<Rightarrow> if w \<noteq> [] then Some w else tags_of el ''url''
      | None \<Rightarrow> tags_of el ''url'')"
  by (simp add: toPOI_def Let_def js_or_def Boolean_def split: option.splits)

lemma address_toPOI:
  "address (toPOI el) =
     (let parts = filter_Boolean [tags_of el ''addr:housenumber'', tags_of el ''addr:street'',
                                  tags_of el ''addr:postcode'', tags_of el ''addr:city'']
      in if parts = [] then None else Some (join '', '' parts))"
proof -
  let ?parts = "filter_Boolean [tags_of el ''addr:housenumber'', tags_of el ''addr:street'',
                                tags_of el ''addr:postcode'', tags_of el ''addr:city'']"
  have "join '', '' ?parts = [] \<longleftrightarrow> ?parts = []"
    by (rule join_empty) (blast dest: filter_Boolean_nonempty)
  then show ?thesis
    by (simp add: toPOI_def Let_def js_or_def Boolean_def)
qed

lemma unnamed_excluded:
  assumes "tags_of el ''name'' = None" and "tags_of el ''description'' = None"
    and "getPOIs r = Inr ps"
  shows "toPOI el \<notin> set ps"
proof
  assume "toPOI el \<in> set ps"
  with assms(3) have "name (toPOI el) \<noteq> unnamed_poi"
    by (rule getPOIs_named)
  moreover from assms(1,2) have "name (toPOI el) = unnamed_poi"
    by (simp add: name_toPOI js_or_lit_def)
  ultimately show False by simp
qed

lemma contains_nonempty: "contains w v \<Longrightarrow> w \<noteq> [] \<Longrightarrow> v \<noteq> []"
  by (cases v; cases w) simp_all

lemma tourism_filter_value:
  "tourism_filter t \<Longrightarrow> \<exists>v. t ''tourism'' = Some v \<and> v \<noteq> []"
  by (auto simp add: tourism_filter_def split: option.splits dest: contains_nonempty)

lemma historic_filter_value:
  "historic_filter t \<Longrightarrow> \<exists>v. t ''historic'' = Some v \<and> v \<noteq> []"
  by (auto simp add: historic_filter_def split: option.splits dest: contains_nonempty)

lemma matched_category_kept:
  assumes "matched_category el = Some v"
    and "tourism_filter (tags_of el) \<or> \<not> Boolean (tags_of el ''tourism'')"
  shows "poi_type (toPOI el) = v"
proof (cases "tourism_filter (tags_of el)")
  case True
  from tourism_filter_value [OF True] assms(1) True show ?thesis
    by (auto simp add: poi_type_toPOI matched_category_def)
next
  case False
  with assms(1) have h: "historic_filter (tags_of el)" "tags_of el ''historic'' = Some v"
    by (simp_all add: matched_category_def split: if_splits)
  from historic_filter_value [OF h(1)] h(2) have "v \<noteq> []"
    by simp
  with False assms(2) h(2) show ?thesis
    by (auto simp add: poi_type_toPOI Boolean_def js_or_lit_def split: option.splits)
qed

text \<open>
  C5, as stated, fails in its clause on the category.  A castle run as a hotel is returned
  by the filter on \<^verbatim>\<open>historic\<close> alone; its \<^verbatim>\<open>tourism\<close> tag does not pass the other
  filter.  The tag that matched has the value \<^verbatim>\<open>castle\<close>, and the category of the
  record in the list is \<^verbatim>\<open>hotel\<close>.
\<close>

theorem category_counterexample:
  "\<not> tourism_filter (tags_of castle_hotel)
   \<and> historic_filter (tags_of castle_hotel)
   \<and> matched_category castle_hotel = Some ''castle''
   \<and> getPOIs (Elements [castle_hotel]) = Inr [toPOI castle_hotel]
   \<and> poi_type (toPOI castle_hotel) = ''hotel''"
  by code_simp

text \<open>
  C5, amended.  Whatever the tagged-data service answers, \<^verbatim>\<open>getPOIs\<close> returns a list,
  and no record of it carries the placeholder name.  On an array of raw records the list is
  the image of the records under \<^verbatim>\<open>toPOI\<close> without those named by the placeholder.  For
  a raw record, the name is the \<^verbatim>\<open>name\<close> tag, else the \<^verbatim>\<open>description\<close> tag, else the
  placeholder; the category is the \<^verbatim>\<open>tourism\<close> tag, else the \<^verbatim>\<open>historic\<close> tag, else
  \<^verbatim>\<open>"poi"\<close>, whether or not that tag is the one that matched; the address joins with
  \<^verbatim>\<open>", "\<close> the sub-fields house number, street, postcode and city that are there, and is
  absent when none is; the website is the \<^verbatim>\<open>website\<close> tag, else the \<^verbatim>\<open>url\<close> tag.  A
  tag counts when it is there and not the empty string.  A record with neither a name nor a
  description tag is not in the list.  The category is the value of the tag that matched
  whenever the \<^verbatim>\<open>tourism\<close> tag matched or does not count.
\<close>

theorem getPOIs_normalises:
  fixes r :: "'n overpass" and el :: "'n element"
  shows "(\<exists>ps. getPOIs r = Inr ps \<and> (\<forall>p \<in> set ps. name p \<noteq> unnamed_poi)
            \<and> (tags_of el ''name'' = None \<and> tags_of el ''description'' = None
                  \<longrightarrow> toPOI el \<notin> set ps))
    \<and> getPOIs (Elements els) = Inr (filter (\<lambda>p. name p \<noteq> unnamed_poi) (map toPOI els))
    \<and> name (toPOI el) =
        (case tags_of el ''name'' of
           Some n \<Rightarrow> if n \<noteq> [] then n else js_or_lit (tags_of el ''description'') unnamed_poi
         | None \<Rightarrow> js_or_lit (tags_of el ''description'') unnamed_poi)
    \<and> poi_type (toPOI el) =
        (case tags_of el ''tourism'' of
           Some t \<Rightarrow> if t \<noteq> [] then t else js_or_lit (tags_of el ''historic'') ''poi''
         | None \<Rightarrow> js_or_lit (tags_of el ''historic'') ''poi'')
    \<and> address (toPOI el) =
        (let parts = concat (map (\<lambda>v. case v of Some s \<Rightarrow> if s = [] then [] else [s]
                                              | None \<Rightarrow> [])
                         [tags_of el ''addr:housenumber'', tags_of el ''addr:street'',
                          tags_of el ''addr:postcode'', tags_of el ''addr:city''])
         in if parts = [] then None else Some (join '', '' parts))
    \<and> website (toPOI el) =
        (case tags_of el ''website'' of
           Some w \<Rightarrow> if w \<noteq> [] then Some w else tags_of el ''url''
         | None \<Rightarrow> tags_of el ''url'')
    \<and> (\<forall>v. matched_category el = Some v
              \<and> (tourism_filter (tags_of el) \<or> \<not> Boolean (tags_of el ''tourism''))
            \<longrightarrow> poi_type (toPOI el) = v)"
proof (intro conjI)
  obtain ps where ps: "getPOIs r = Inr ps"
    using getPOIs_total by blast
  have "\<forall>p \<in> set ps. name p \<noteq> unnamed_poi"
    using ps getPOIs_named by blast
  moreover have "tags_of el ''name'' = None \<and> tags_of el ''description'' = None
      \<longrightarrow> toPOI el \<notin> set ps"
    using ps unnamed_excluded by blast
  ultimately show "\<exists>ps. getPOIs r = Inr ps \<and> (\<forall>p \<in> set ps. name p \<noteq> unnamed_poi)
      \<and> (tags_of el ''name'' = None \<and> tags_of el ''description'' = None
            \<longrightarrow> toPOI el \<notin> set ps)"
    using ps by blast
next
  show "getPOIs (Elements els) = Inr (filter (\<lambda>p. name p \<noteq> unnamed_poi) (map toPOI els))"
    by (rule getPOIs_Elements)
next
  show "name (toPOI el) =
        (case tags_of el ''name'' of
           Some n \<Rightarrow> if n \<noteq> [] then n else js_or_lit (tags_of el ''description'') unnamed_poi
         | None \<Rightarrow> js_or_lit (tags_of el ''description'') unnamed_poi)"
    by (rule name_toPOI)
next
  show "poi_type (toPOI el) =
        (case tags_of el ''tourism'' of
           Some t \<Rightarrow> if t \<noteq> [] then t else js_or_lit (tags_of el ''historic'') ''poi''
         | None \<Rightarrow> js_or_lit (tags_of el ''historic'') ''poi'')"
    by (rule poi_type_toPOI)
next
  show "address (toPOI el) =
        (let parts = concat (map (\<lambda>v. case v of Some s \<Rightarrow> if s = [] then [] else [s]
                                              | None \<Rightarrow> [])
                         [tags_of el ''addr:housenumber'', tags_of el ''addr:street'',
                          tags_of el ''addr:postcode'', tags_of el ''addr:city''])
         in if parts = [] then None else Some (join '', '' parts))"
    unfolding address_toPOI filter_Boolean_eq ..
next
  show "website (toPOI el) =
        (case tags_of el ''website'' of
           Some w \<Rightarrow> if w \<noteq> [] then Some w else tags_of el ''url''
         | None \<Rightarrow> tags_of el ''url'')"
    by (rule website_toPOI)
next
  show "\<forall>v. matched_category el = Some v
              \<and> (tourism_filter (tags_of el) \<or> \<not> Boolean (tags_of el ''tourism''))
            \<longrightarrow> poi_type (toPOI el) = v"
    using matched_category_kept by blast
qed

text \<open>
  The scenario of the specification: a museum without a name tag next to a named one with
  a street and a city.
\<close>

theorem getPOIs_normalises_witness:
  "getPOIs (Elements
      [\<lparr> el_id = 1::int, el_lat = 48, el_lon = 2, el_tags = Some [''tourism'' \<mapsto> ''museum''] \<rparr>,
       \<lparr> el_id = 2, el_lat = 48, el_lon = 2,
         el_tags = Some [''tourism'' \<mapsto> ''museum'', ''name'' \<mapsto> ''Louvre'',
                         ''addr:street'' \<mapsto> ''Rue de Rivoli'', ''addr:city'' \<mapsto> ''Paris'',
                         ''url'' \<mapsto> ''https://www.louvre.fr''] \<rparr>])
   = Inr [\<lparr> lat = 48, lng = 2, name = ''Louvre'', poi_id = 2, poi_type = ''museum'',
            website = Some ''https://www.louvre.fr'', description = None,
            address = Some ''Rue de Rivoli, Paris'' \<rparr>]
   \<and> toPOI \<lparr> el_id = 1::int, el_lat = 48, el_lon = 2,
              el_tags = Some [''tourism'' \<mapsto> ''museum''] \<rparr>
       \<notin> set [\<lparr> lat = 48, lng = 2, name = ''Louvre'', poi_id = 2, poi_type = ''museum'',
            website = Some ''https://www.louvre.fr'', description = None,
            address = Some ''Rue de Rivoli, Paris'' \<rparr>]
   \<and> matched_category \<lparr> el_id = 1::int, el_lat = 48, el_lon = 2,
              el_tags = Some [''tourism'' \<mapsto> ''museum''] \<rparr> = Some ''museum''
   \<and> poi_type (toPOI \<lparr> el_id = 1::int, el_lat = 48, el_lon = 2,
              el_tags = Some [''tourism'' \<mapsto> ''museum''] \<rparr>) = ''museum''"
proof -
  let ?m = "\<lparr> el_id = 1::int, el_lat = 48, el_lon = 2,
              el_tags = Some [''tourism'' \<mapsto> ''museum''] \<rparr>"
  let ?l = "\<lparr> el_id = 2::int, el_lat = 48, el_lon = 2,
         el_tags = Some [''tourism'' \<mapsto> ''museum'', ''name'' \<mapsto> ''Louvre'',
                         ''addr:street'' \<mapsto> ''Rue de Rivoli'', ''addr:city'' \<mapsto> ''Paris'',
                         ''url'' \<mapsto> ''https://www.louvre.fr''] \<rparr>"
  have untagged: "tags_of ?m ''name'' = None \<and> tags_of ?m ''description'' = None"
    by (simp add: tags_of_def)
  have kept: "filter (\<lambda>p. name p \<noteq> unnamed_poi) (map toPOI [?m, ?l])
      = [\<lparr> lat = 48, lng = 2, name = ''Louvre'', poi_id = 2, poi_type = ''museum'',
            website = Some ''https://www.louvre.fr'', description = None,
            address = Some ''Rue de Rivoli, Paris'' \<rparr>]"
    by (simp add: toPOI_def tags_of_def js_or_def js_or_lit_def Boolean_def unnamed_poi_def)
  have matched: "matched_category ?m = Some ''museum''" "tourism_filter (tags_of ?m)"
    by (simp_all add: matched_category_def tourism_filter_def tags_of_def)
  from getPOIs_normalises [of "Elements [?m, ?l]" ?m "[?m, ?l]"] matched
  have category: "poi_type (toPOI ?m) = ''museum''"
    by blast
  from getPOIs_normalises [of "Elements [?m, ?l]" ?m "[?m, ?l]"] untagged kept
  have "getPOIs (Elements [?m, ?l])
      = Inr [\<lparr> lat = 48, lng = 2, name = ''Louvre'', poi_id = 2, poi_type = ''museum'',
            website = Some ''https://www.louvre.fr'', description = None,
            address = Some ''Rue de Rivoli, Paris'' \<rparr>]
    \<and> toPOI ?m \<notin> set [\<lparr> lat = 48, lng = 2, name = ''Louvre'', poi_id = 2,
            poi_type = ''museum'', website = Some ''https://www.louvre.fr'', description = None,
            address = Some ''Rue de Rivoli, Paris'' \<rparr>]"
    by auto
  with matched(1) category show ?thesis
    by blast

qed

section \<open>Reverse geocoding and map clicks\<close>

lemma reverseGeocode_total: "\<exists>nm. reverseGeocode r = Inr nm"
  by (cases r) (simp_all add: reverseGeocode_def reverseGeocode_try_def)

lemma reverseGeocode_failure:
  "reverseGeocode_try r = Inl e \<Longrightarrow> reverseGeocode r = Inr unknown_place"
  by (simp add: reverseGeocode_def)

lemma click_start_mode:
  "reverseGeocode r = Inr nm \<Longrightarrow>
   click start_mode la lo r s =
     Inr (s\<lparr> start := Some \<lparr> lat = la, lng = lo, name = nm \<rparr>, selectionMode := end_mode \<rparr>)"
  by (simp add: click_def)

lemma click_end_mode:
  "reverseGeocode r = Inr nm \<Longrightarrow>
   click end_mode la lo r s = Inr (s\<lparr> end' := Some \<lparr> lat = la, lng = lo, name = nm \<rparr> \<rparr>)"
  by (simp add: click_def)

lemma clicks_in_end_mode:
  "selectionMode s = end_mode \<Longrightarrow>
   \<exists>s'. clicks cs s = Inr s' \<and> selectionMode s' = end_mode \<and> start s' = start s"
proof (induction cs arbitrary: s)
  case Nil
  then show ?case by simp
next
  case (Cons c cs)
  obtain la lo r where c: "c = (la, lo, r)"
    by (cases c) auto
  obtain nm where nm: "reverseGeocode r = Inr nm"
    using reverseGeocode_total by blast
  let ?s1 = "s\<lparr> end' := Some \<lparr> lat = la, lng = lo, name = nm \<rparr> \<rparr>"
  from Cons.prems nm have step: "click (selectionMode s) la lo r s = Inr ?s1"
    by (simp add: click_end_mode)
  from Cons.prems have "selectionMode ?s1 = end_mode" by simp
  from Cons.IH [OF this] obtain s' where
    "clicks cs ?s1 = Inr s'" "selectionMode s' = end_mode" "start s' = start ?s1"
    by blast
  with step c show ?case by simp
qed

text \<open>
  C6.  Whatever the reverse lookup answers, \<^verbatim>\<open>reverseGeocode\<close> returns a name and
  never an error; when the lookup fails (the request is rejected, or the answer has no
  usable \<^verbatim>\<open>display_name\<close>) the name is the fixed placeholder.  The click handler then
  always succeeds and sets the coordinate its selection mode targets to the clicked
  position, labelled with that name.
\<close>

theorem click_creates_waypoint:
  "\<exists>nm s'. reverseGeocode r = Inr nm
      \<and> (\<forall>e. reverseGeocode_try r = Inl e \<longrightarrow> nm = unknown_place)
      \<and> click m la lo r s = Inr s'
      \<and> (m = start_mode \<longrightarrow> start s' = Some \<lparr> lat = la, lng = lo, name = nm \<rparr>)
      \<and> (m = end_mode \<longrightarrow> end' s' = Some \<lparr> lat = la, lng = lo, name = nm \<rparr>)"
proof -
  obtain nm where nm: "reverseGeocode r = Inr nm"
    using reverseGeocode_total by blast
  have "\<forall>e. reverseGeocode_try r = Inl e \<longrightarrow> nm = unknown_place"
    using nm reverseGeocode_failure by fastforce
  moreover have "\<exists>s'. click m la lo r s = Inr s'
      \<and> (m = start_mode \<longrightarrow> start s' = Some \<lparr> lat = la, lng = lo, name = nm \<rparr>)
      \<and> (m = end_mode \<longrightarrow> end' s' = Some \<lparr> lat = la, lng = lo, name = nm \<rparr>)"
    by (cases m) (simp_all add: click_start_mode [OF nm] click_end_mode [OF nm])
  ultimately show ?thesis using nm by blast
qed

theorem click_creates_waypoint_witness:
  "reverseGeocode_try ReverseRejected = Inl AxiosError
   \<and> (\<exists>s'. click start_mode (48::int) 2 ReverseRejected (initial_app :: int app) = Inr s'
          \<and> start s' = Some \<lparr> lat = 48, lng = 2, name = ''Lieu inconnu'' \<rparr>)"
proof -
  have rejected: "reverseGeocode_try ReverseRejected = Inl AxiosError"
    by (simp add: reverseGeocode_try_def)
  from click_creates_waypoint [of ReverseRejected start_mode "48::int" 2 "initial_app :: int app"]
  obtain nm s' where
    "\<forall>e. reverseGeocode_try ReverseRejected = Inl e \<longrightarrow> nm = unknown_place"
    "click start_mode (48::int) 2 ReverseRejected (initial_app :: int app) = Inr s'"
    "start_mode = start_mode \<longrightarrow> start s' = Some \<lparr> lat = 48, lng = 2, name = nm \<rparr>"
    by blast
  with rejected show ?thesis
    by (auto simp add: unknown_place_def)
qed

text \<open>
  C4.  The selection mode of the initial state is START.  A click handled in mode START
  sets the start coordinate and moves the mode to END, changing nothing else.  A click
  handled in mode END sets the end coordinate and changes nothing else, so the mode stays
  as it is.  After any sequence of map clicks from the initial state the mode is START if
  there was no click and END otherwise, and the start coordinate is the one set by the
  first click.
\<close>

theorem selection_role:
  fixes s :: "('n, 'z) app_scheme"
  shows "selectionMode (initial_app :: 'n app) = start_mode
    \<and> (\<exists>nm. click start_mode la lo r s =
          Inr (s\<lparr> start := Some \<lparr> lat = la, lng = lo, name = nm \<rparr>, selectionMode := end_mode \<rparr>))
    \<and> (\<exists>nm. click end_mode la lo r s =
          Inr (s\<lparr> end' := Some \<lparr> lat = la, lng = lo, name = nm \<rparr> \<rparr>))
    \<and> (\<exists>s'. clicks cs (initial_app :: 'n app) = Inr s'
          \<and> selectionMode s' = (if cs = [] then start_mode else end_mode)
          \<and> (\<forall>c cs'. cs = c # cs' \<longrightarrow>
                (\<exists>s1. clicks [c] (initial_app :: 'n app) = Inr s1 \<and> start s' = start s1)))"
proof (intro conjI)
  show "selectionMode (initial_app :: 'n app) = start_mode"
    by (simp add: initial_app_def)
next
  show "\<exists>nm. click start_mode la lo r s =
          Inr (s\<lparr> start := Some \<lparr> lat = la, lng = lo, name = nm \<rparr>, selectionMode := end_mode \<rparr>)"
  proof -
    obtain nm where "reverseGeocode r = Inr nm"
      using reverseGeocode_total by blast
    then show ?thesis
      by (intro exI [of _ nm]) (rule click_start_mode)
  qed
next
  show "\<exists>nm. click end_mode la lo r s =
          Inr (s\<lparr> end' := Some \<lparr> lat = la, lng = lo, name = nm \<rparr> \<rparr>)"
  proof -
    obtain nm where "reverseGeocode r = Inr nm"
      using reverseGeocode_total by blast
    then show ?thesis
      by (intro exI [of _ nm]) (rule click_end_mode)
  qed
next
  show "\<exists>s'. clicks cs (initial_app :: 'n app) = Inr s'
          \<and> selectionMode s' = (if cs = [] then start_mode else end_mode)
          \<and> (\<forall>c cs'. cs = c # cs' \<longrightarrow>
                (\<exists>s1. clicks [c] (initial_app :: 'n app) = Inr s1 \<and> start s' = start s1))"
  proof (cases cs)
    case Nil
    then show ?thesis by (simp add: initial_app_def)
  next
    case (Cons c cs')
    obtain la lo r where c: "c = (la, lo, r)"
      by (cases c) auto
    obtain nm where nm: "reverseGeocode r = Inr nm"
      using reverseGeocode_total by blast
    let ?s1 = "(initial_app :: 'n app)\<lparr> start := Some \<lparr> lat = la, lng = lo, name = nm \<rparr>,
                 selectionMode := end_mode \<rparr>"
    have first: "click (selectionMode (initial_app :: 'n app)) la lo r initial_app = Inr ?s1"
    proof -
      have "selectionMode (initial_app :: 'n app) = start_mode"
        by (simp add: initial_app_def)
      then show ?thesis
        by (simp only: click_start_mode [OF nm])
    qed
    have "selectionMode ?s1 = end_mode" by simp
    from clicks_in_end_mode [OF this, of cs'] obtain s' where
      "clicks cs' ?s1 = Inr s'" "selectionMode s' = end_mode" "start s' = start ?s1"
      by blast
    with first c Cons show ?thesis by simp
  qed
qed

theorem selection_role_witness:
  "\<exists>s'. clicks [(48::int, 2, DisplayName ''Paris, France''), (45, 4, DisplayName ''Lyon, France'')]
            (initial_app :: int app) = Inr s'
      \<and> selectionMode s' = end_mode
      \<and> start s' = Some \<lparr> lat = 48, lng = 2, name = ''Paris'' \<rparr>"
proof -
  let ?cs = "[(48::int, 2::int, DisplayName ''Paris, France''), (45, 4, DisplayName ''Lyon, France'')]"
  have one: "clicks [(48::int, 2::int, DisplayName ''Paris, France'')] (initial_app :: int app)
      = Inr (initial_app\<lparr> start := Some \<lparr> lat = 48, lng = 2, name = ''Paris'' \<rparr>,
               selectionMode := end_mode \<rparr>)"
    by (simp add: click_def reverseGeocode_def reverseGeocode_try_def initial_app_def)
  from selection_role [of _ _ _ "initial_app :: int app" ?cs]
  obtain s' where s': "clicks ?cs (initial_app :: int app) = Inr s'"
      "selectionMode s' = (if ?cs = [] then start_mode else end_mode)"
      "\<forall>c cs'. ?cs = c # cs' \<longrightarrow>
          (\<exists>s1. clicks [c] (initial_app :: int app) = Inr s1 \<and> start s' = start s1)"
    by blast
  from s'(3) one have "start s' = Some \<lparr> lat = 48, lng = 2, name = ''Paris'' \<rparr>"
    by auto
  with s'(1,2) show ?thesis by auto
qed

section \<open>Story generation\<close>

lemma generateStoryStream_with_key:
  "Boolean API_KEY \<Longrightarrow>
   \<exists>k p. API_KEY = Some k \<and>
     generateStoryStream API_KEY service st en ps config =
       (service model p, [NewGoogleGenAI k, GenerateContentStream model p])"
  by (cases API_KEY)
    (auto simp add: generateStoryStream_def Boolean_def Let_def split: sum.splits)

lemma on_chunk_story:
  "story s = fullStory \<Longrightarrow> on_chunk t fullStory s = (f', s') \<Longrightarrow>
   story s' = f' \<and> f' = fullStory @ (case t of Some x \<Rightarrow> x | None \<Rightarrow> [])
   \<and> s' = s\<lparr> story := f' \<rparr>"
  by (cases t) (auto simp add: on_chunk_def Boolean_def Let_def split: if_splits)

lemma for_await_length:
  "for_await stream fullStory s = (ss, e) \<Longrightarrow> length ss = length (fragments stream)"
  by (induction stream arbitrary: fullStory s ss e) (auto split: prod.splits)

lemma for_await_states:
  "for_await stream fullStory s = (ss, e) \<Longrightarrow> story s = fullStory \<Longrightarrow> k < length ss \<Longrightarrow>
   ss ! k = s\<lparr> story := fullStory @
     concat (map (\<lambda>t. case t of Some x \<Rightarrow> x | None \<Rightarrow> []) (take (Suc k) (fragments stream))) \<rparr>"
proof (induction stream arbitrary: fullStory s ss k e)
  case StreamEnd
  then show ?case by simp
next
  case StreamError
  then show ?case by simp
next
  case (Chunk t rest)
  obtain f' s' where step: "on_chunk t fullStory s = (f', s')"
    by (cases "on_chunk t fullStory s") auto
  obtain ss' e' where rest: "for_await rest f' s' = (ss', e')"
    by (cases "for_await rest f' s'") auto
  from Chunk.prems(1) step rest have ss: "ss = s' # ss'"
    by simp
  from on_chunk_story [OF Chunk.prems(2) step]
  have s': "story s' = f'" "f' = fullStory @ (case t of Some x \<Rightarrow> x | None \<Rightarrow> [])"
    "s' = s\<lparr> story := f' \<rparr>"
    by simp_all
  show ?case
  proof (cases k)
    case 0
    with ss s' show ?thesis by simp
  next
    case (Suc j)
    with Chunk.prems(3) ss have "j < length ss'" by simp
    from Chunk.IH [OF rest s'(1) this]
    have "ss' ! j = s'\<lparr> story := f' @
      concat (map (\<lambda>t. case t of Some x \<Rightarrow> x | None \<Rightarrow> []) (take (Suc j) (fragments rest))) \<rparr>" .
    with ss Suc s'(2,3) show ?thesis by simp
  qed
qed

text \<open>
  C7.  When \<^verbatim>\<open>process.env.API_KEY\<close> is absent (undefined or the empty string),
  \<^verbatim>\<open>generateStoryStream\<close> fails with the missing-key error and no call has reached the
  text service: no client was built and no prompt was sent.
\<close>

theorem missing_key_fails_fast:
  "\<not> Boolean API_KEY \<Longrightarrow>
   generateStoryStream API_KEY service st en ps config = (Inl ApiKeyMissing, [])"
  by (simp add: generateStoryStream_def)

theorem missing_key_fails_fast_witness:
  "\<not> Boolean None
   \<and> generateStoryStream None (\<lambda>m p. Inr (Chunk (Some ''Il etait une fois'') StreamEnd))
        \<lparr> lat = 48::int, lng = 2, name = ''Paris'' \<rparr> \<lparr> lat = 45::int, lng = 4, name = ''Lyon'' \<rparr>
        ([] :: int POI list) \<lparr> style = ADVENTURE, language = FRENCH \<rparr>
       = (Inl ApiKeyMissing, [])"
proof -
  have absent: "\<not> Boolean None"
    by (simp add: Boolean_def)
  from missing_key_fails_fast [OF absent] absent show ?thesis
    by blast
qed


text \<open>
  C10.  With start and end set, the first state of a run of \<^verbatim>\<open>handleGenerateStory\<close>
  is the state before the run with the generation flag raised and the story emptied, and
  with nothing yet sent to the text service.  The states that follow, one after the call of
  \<^verbatim>\<open>generateStoryStream\<close> and one after each chunk, still have the flag raised, and the
  story in the state after \<open>k\<close> chunks is the concatenation, in arrival order, of the
  texts of these \<open>k\<close> chunks: it holds nothing of the story stored before the run.  One
  last state follows, where the flag is lowered.
\<close>

theorem story_is_fragments_so_far:
  fixes s :: "'n story_run"
  assumes "start s = Some st" and "end' s = Some en"
    and "generateStoryStream API_KEY service st en (pois s) config = (r, calls)"
    and "frags = (case r of Inl error \<Rightarrow> [] | Inr responseStream \<Rightarrow> fragments responseStream)"
    and "tr = handleGenerateStory API_KEY service config s"
  shows "length tr = length frags + 3
    \<and> tr ! 0 = s\<lparr> isGenerating := True, story := [] \<rparr>
    \<and> (\<forall>k \<le> length frags.
          tr ! Suc k =
            s\<lparr> isGenerating := True,
               story := concat (map (\<lambda>t. case t of Some x \<Rightarrow> x | None \<Rightarrow> []) (take k frags)),
               genai_calls := genai_calls s @ calls \<rparr>)"
proof (cases r)
  case (Inl error)
  with assms have "tr = [s\<lparr> isGenerating := True, story := [] \<rparr>,
      s\<lparr> isGenerating := True, story := [], genai_calls := genai_calls s @ calls \<rparr>,
      s\<lparr> isGenerating := True, story := [], genai_calls := genai_calls s @ calls,
         story := apology, isGenerating := False \<rparr>]"
    by (simp add: handleGenerateStory_def Let_def)
  moreover from Inl assms(4) have "frags = []" by simp
  ultimately show ?thesis by simp
next
  case (Inr responseStream)
  let ?s1 = "s\<lparr> isGenerating := True, story := [] \<rparr>"
  let ?s2 = "?s1\<lparr> genai_calls := genai_calls ?s1 @ calls \<rparr>"
  obtain ss e where loop: "for_await responseStream [] ?s2 = (ss, e)"
    by (cases "for_await responseStream [] ?s2") auto
  from Inr assms(4) have frags: "frags = fragments responseStream" by simp
  from for_await_length [OF loop] frags have len: "length ss = length frags" by simp
  from assms(1,2,3,5) Inr loop obtain final where tr: "tr = ?s1 # ?s2 # ss @ [final]"
    by (cases e) (simp_all add: handleGenerateStory_def Let_def)
  have "tr ! Suc k =
            s\<lparr> isGenerating := True,
               story := concat (map (\<lambda>t. case t of Some x \<Rightarrow> x | None \<Rightarrow> []) (take k frags)),
               genai_calls := genai_calls s @ calls \<rparr>" if "k \<le> length frags" for k
  proof (cases k)
    case 0
    with tr show ?thesis by simp
  next
    case (Suc j)
    with that len have j: "j < length ss" by simp
    have "story ?s2 = []" by simp
    from for_await_states [OF loop this j] frags tr Suc j show ?thesis
      by (simp add: nth_append)
  qed
  with tr len show ?thesis by simp
qed

theorem story_is_fragments_so_far_witness:
  "(let tr = handleGenerateStory (Some ''key'')
       (\<lambda>m p. Inr (Chunk (Some ''Il '') (Chunk None (Chunk (Some ''etait'') StreamEnd))))
       \<lparr> style = ADVENTURE, language = AUTO \<rparr>
       \<lparr> start = Some \<lparr> lat = 48::int, lng = 2, name = ''Paris'' \<rparr>,
         end' = Some \<lparr> lat = 45, lng = 4, name = ''Lyon'' \<rparr>,
         pois = [], focusedPoi = None, selectionMode = end_mode, story = ''an older story'',
         isGenerating = False, isLoadingPois = False, transportMode = car, genai_calls = [] \<rparr>
    in length tr = 6 \<and> story (tr ! 0) = [] \<and> genai_calls (tr ! 0) = [] \<and> story (tr ! 1) = []
       \<and> story (tr ! 2) = ''Il '' \<and> story (tr ! 3) = ''Il '' \<and> story (tr ! 4) = ''Il etait'')"
proof -
  let ?svc = "\<lambda>(m :: string) (p :: prompt).
    (Inr (Chunk (Some ''Il '') (Chunk None (Chunk (Some ''etait'') StreamEnd))) :: js_error + stream)"
  let ?cfg = "\<lparr> style = ADVENTURE, language = AUTO \<rparr>"
  let ?st = "\<lparr> lat = 48::int, lng = 2, name = ''Paris'' \<rparr>"
  let ?en = "\<lparr> lat = 45::int, lng = 4, name = ''Lyon'' \<rparr>"
  let ?s = "\<lparr> start = Some ?st, end' = Some ?en,
         pois = [], focusedPoi = None, selectionMode = end_mode, story = ''an older story'',
         isGenerating = False, isLoadingPois = False, transportMode = car, genai_calls = [] \<rparr>"
  let ?tr = "handleGenerateStory (Some ''key'') ?svc ?cfg ?s"
  let ?frags = "[Some ''Il '', None, Some ''etait'']"
  obtain calls where req: "generateStoryStream (Some ''key'') ?svc ?st ?en (pois ?s) ?cfg
      = (Inr (Chunk (Some ''Il '') (Chunk None (Chunk (Some ''etait'') StreamEnd))), calls)"
    by (simp add: generateStoryStream_def Boolean_def Let_def)
  have frags: "?frags = (case (Inr (Chunk (Some ''Il '') (Chunk None (Chunk (Some ''etait'') StreamEnd)))
        :: js_error + stream) of Inl error \<Rightarrow> [] | Inr responseStream \<Rightarrow> fragments responseStream)"
    by simp
  from story_is_fragments_so_far [of ?s ?st ?en "Some ''key''" ?svc ?cfg _ calls ?frags ?tr,
      OF _ _ req frags refl]
  have len: "length ?tr = 6"
    and first: "?tr ! 0 = ?s\<lparr> isGenerating := True, story := [] \<rparr>"
    and later: "\<forall>k \<le> 3. ?tr ! Suc k =
            ?s\<lparr> isGenerating := True,
               story := concat (map (\<lambda>t. case t of Some x \<Rightarrow> x | None \<Rightarrow> []) (take k ?frags)),
               genai_calls := genai_calls ?s @ calls \<rparr>"
    by simp_all
  have s1: "story (?tr ! 1) = []"
    using later [rule_format, of 0] by simp
  have s2: "story (?tr ! 2) = ''Il ''"
    using later [rule_format, of 1] by (simp add: eval_nat_numeral)
  have s3: "story (?tr ! 3) = ''Il ''"
    using later [rule_format, of 2] by (simp add: eval_nat_numeral)
  have s4: "story (?tr ! 4) = ''Il etait''"
    using later [rule_format, of 3] by (simp add: eval_nat_numeral)
  from first have s0: "story (?tr ! 0) = [] \<and> genai_calls (?tr ! 0) = []"
    by simp
  from len s0 s1 s2 s3 s4 show ?thesis
    unfolding Let_def by blast
qed

section \<open>The POI effect\<close>

lemma fetchPois_resume_pois:
  "pois (fetchPois_resume (service (lat e) (lng e)) s) = pois_near service e
   \<and> end' (fetchPois_resume (service (lat e) (lng e)) s) = end' s
   \<and> poi_fetches (fetchPois_resume (service (lat e) (lng e)) s) = poi_fetches s"
  by (simp add: fetchPois_resume_def pois_near_def split: sum.splits)

lemma PoisArrive_applies:
  "i < length (poi_fetches s) \<Longrightarrow>
   pois (poi_step service s (PoisArrive i)) = pois_near service (poi_fetches s ! i)
   \<and> end' (poi_step service s (PoisArrive i)) = end' s
   \<and> poi_fetches (poi_step service s (PoisArrive i))
       = take i (poi_fetches s) @ drop (Suc i) (poi_fetches s)"
  by (simp add: poi_step_def Let_def fetchPois_resume_pois)

lemma SetEnd_fetches:
  "end' (poi_step service s (SetEnd e)) = Some e
   \<and> pois (poi_step service s (SetEnd e)) = pois s
   \<and> poi_fetches (poi_step service s (SetEnd e)) = poi_fetches s @ [e]"
  by (simp add: poi_step_def fetchPois_def)

lemma in_issue_order_append:
  "in_issue_order (evs @ evs') \<longleftrightarrow> in_issue_order evs \<and> in_issue_order evs'"
  by (induction evs rule: in_issue_order.induct) auto

lemma poi_inv_initial: "poi_inv service initial_poi_run"
  by (simp add: poi_inv_def initial_poi_run_def)

lemma poi_inv_step:
  assumes "poi_inv service s" and "in_issue_order [ev]"
  shows "poi_inv service (poi_step service s ev)"
proof (cases ev)
  case (SetEnd e)
  then show ?thesis
    using SetEnd_fetches [of service s e] by (simp add: poi_inv_def)
next
  case (PoisArrive i)
  with assms(2) have i: "i = 0" by simp
  show ?thesis
  proof (cases "poi_fetches s")
    case Nil
    with PoisArrive assms(1) show ?thesis
      by (simp add: poi_step_def)
  next
    case (Cons d ds)
    with i have "0 < length (poi_fetches s)" by simp
    from PoisArrive_applies [OF this, of service] Cons i PoisArrive assms(1)
    show ?thesis
      by (cases ds) (auto simp add: poi_inv_def)
  qed
qed

lemma poi_inv_steps:
  "in_issue_order evs \<Longrightarrow> poi_inv service (poi_steps service initial_poi_run evs)"
proof (induction evs rule: rev_induct)
  case Nil
  then show ?case by (simp add: poi_steps_def poi_inv_initial)
next
  case (snoc ev evs)
  then have "poi_inv service (poi_steps service initial_poi_run evs)" "in_issue_order [ev]"
    by (simp_all add: in_issue_order_append)
  then have "poi_inv service (poi_step service (poi_steps service initial_poi_run evs) ev)"
    by (rule poi_inv_step)
  then show ?case by (simp add: poi_steps_def)
qed

text \<open>
  C1, as stated, fails.  The end coordinate is set to Paris and then to Lyon while the call
  for Paris is pending; the call for Paris then resolves.  The end coordinate is Lyon and
  the POI list is the one of Paris, which is not the one of Lyon.
\<close>

theorem stale_pois_counterexample:
  "poi_fetches (poi_steps museums initial_poi_run [SetEnd paris, SetEnd lyon]) = [paris, lyon]
   \<and> end' (poi_steps museums initial_poi_run [SetEnd paris, SetEnd lyon, PoisArrive 0]) = Some lyon
   \<and> pois (poi_steps museums initial_poi_run [SetEnd paris, SetEnd lyon, PoisArrive 0])
       = pois_near museums paris
   \<and> pois_near museums paris \<noteq> pois_near museums lyon"
  by code_simp

text \<open>
  C1, amended.  When a pending call of \<^verbatim>\<open>getPOIs\<close> resolves, its list replaces the POI
  list, whatever the end coordinate is by then, and the end coordinate is left as it is.
  If the calls resolve in the order they were made, then in every state where no call is
  pending the POI list is the one for the current end coordinate (and empty when there is
  none).
\<close>

theorem pois_follow_last_arrival:
  "(i < length (poi_fetches s) \<longrightarrow>
      pois (poi_step service s (PoisArrive i)) = pois_near service (poi_fetches s ! i)
      \<and> end' (poi_step service s (PoisArrive i)) = end' s)
   \<and> (in_issue_order evs \<and> poi_fetches (poi_steps service initial_poi_run evs) = [] \<longrightarrow>
        pois (poi_steps service initial_poi_run evs)
          = (case end' (poi_steps service initial_poi_run evs) of
               None \<Rightarrow> [] | Some e \<Rightarrow> pois_near service e))"
proof (intro conjI impI)
  assume "i < length (poi_fetches s)"
  from PoisArrive_applies [OF this]
  show "pois (poi_step service s (PoisArrive i)) = pois_near service (poi_fetches s ! i)"
    and "end' (poi_step service s (PoisArrive i)) = end' s"
    by simp_all
next
  assume "in_issue_order evs \<and> poi_fetches (poi_steps service initial_poi_run evs) = []"
  then show "pois (poi_steps service initial_poi_run evs)
          = (case end' (poi_steps service initial_poi_run evs) of
               None \<Rightarrow> [] | Some e \<Rightarrow> pois_near service e)"
    using poi_inv_steps [of evs service] by (simp add: poi_inv_def)
qed

theorem pois_follow_last_arrival_witness:
  "in_issue_order [SetEnd paris, SetEnd lyon, PoisArrive 0, PoisArrive 0]
   \<and> poi_fetches (poi_steps museums initial_poi_run
        [SetEnd paris, SetEnd lyon, PoisArrive 0, PoisArrive 0]) = []
   \<and> end' (poi_steps museums initial_poi_run
        [SetEnd paris, SetEnd lyon, PoisArrive 0, PoisArrive 0]) = Some lyon
   \<and> pois (poi_steps museums initial_poi_run
        [SetEnd paris, SetEnd lyon, PoisArrive 0, PoisArrive 0]) = pois_near museums lyon
   \<and> 1 < length (poi_fetches (poi_steps museums initial_poi_run [SetEnd paris, SetEnd lyon]))
   \<and> pois (poi_step museums (poi_steps museums initial_poi_run [SetEnd paris, SetEnd lyon])
        (PoisArrive 1)) = pois_near museums lyon"
proof -
  let ?evs = "[SetEnd paris, SetEnd lyon, PoisArrive 0, PoisArrive 0]"
  let ?s = "poi_steps museums initial_poi_run [SetEnd paris, SetEnd lyon]"
  have order: "in_issue_order ?evs"
    by simp
  have idle: "poi_fetches (poi_steps museums initial_poi_run ?evs) = []"
    by code_simp
  have dest: "end' (poi_steps museums initial_poi_run ?evs) = Some lyon"
    by code_simp
  have pending: "1 < length (poi_fetches ?s)" "poi_fetches ?s ! 1 = lyon"
    by code_simp+
  from pois_follow_last_arrival [of 1 ?s museums ?evs] order idle dest pending
  show ?thesis by simp
qed

section \<open>The route overlay\<close>

lemma teardown_cleanup:
  assumes "attached s = (case routingControlRef s of None \<Rightarrow> [] | Some c \<Rightarrow> [c])"
  shows "routeSummary (teardown (effect_cleanup s)) = None"
    and "attached (teardown (effect_cleanup s)) = []"
    and "routingControlRef (teardown (effect_cleanup s)) = None"
    and "controls (teardown (effect_cleanup s)) = controls s"
    and "start (teardown (effect_cleanup s)) = start s"
    and "end' (teardown (effect_cleanup s)) = end' s"
    and "transportMode (teardown (effect_cleanup s)) = transportMode s"
  using assms
  by (cases "routingControlRef s"; simp add: teardown_def effect_cleanup_def Let_def)+

lemma request_keeps_summary: "routeSummary (request lib s) = routeSummary s"
  by (simp add: request_def Let_def split: option.splits routing_library.splits)

lemma request_overlay:
  assumes "attached s = []" and "routingControlRef s = None"
  shows "overlay_inv (request lib s)"
  using assms
  by (cases "start s"; cases "end' s"; cases lib)
    (simp_all add: request_def overlay_inv_def current_request_def Let_def)

lemma overlay_attached:
  "overlay_inv s \<Longrightarrow> attached s = (case routingControlRef s of None \<Rightarrow> [] | Some c \<Rightarrow> [c])"
  by (simp add: overlay_inv_def split: option.splits)

lemma rerun_overlay:
  assumes "attached s = (case routingControlRef s of None \<Rightarrow> [] | Some c \<Rightarrow> [c])"
  shows "overlay_inv (rerun lib s)" and "routeSummary (rerun lib s) = None"
proof -
  from teardown_cleanup(2,3) [OF assms] show "overlay_inv (rerun lib s)"
    unfolding rerun_def RoutingMachine_effect_def by (rule request_overlay)
  from teardown_cleanup(1) [OF assms] show "routeSummary (rerun lib s) = None"
    unfolding rerun_def RoutingMachine_effect_def by (simp add: request_keeps_summary)
qed

lemma up_to_date_None: "routeSummary s = None \<Longrightarrow> up_to_date osrm s"
  by (simp add: up_to_date_def)

lemma on_routesfound_cases:
  "on_routesfound routes s = s \<or> (\<exists>r rs. routes = Some (r # rs)
     \<and> on_routesfound routes s = s\<lparr> routeSummary := Some r \<rparr>)"
  by (simp add: on_routesfound_def split: option.splits list.splits)

lemma overlay_inv_summary: "overlay_inv (s\<lparr> routeSummary := x \<rparr>) = overlay_inv s"
  by (simp add: overlay_inv_def current_request_def cong: option.case_cong)

lemma on_routesfound_overlay: "overlay_inv (on_routesfound routes s) = overlay_inv s"
  using on_routesfound_cases [of routes s] by (auto simp add: overlay_inv_summary)

lemma on_routesfound_current:
  assumes "current_request s = Some c" and "up_to_date osrm s"
  shows "up_to_date osrm (on_routesfound (osrm c) s)"
  using assms
  by (auto simp add: on_routesfound_def up_to_date_def current_request_def
      split: option.splits list.splits)

lemma map_step_overlay:
  assumes "overlay_inv s"
  shows "overlay_inv (map_step lib osrm s ev)"
proof (cases ev)
  case (StartChanged l)
  have "overlay_inv (rerun lib (s\<lparr> start := Some l \<rparr>))"
    using overlay_attached [OF assms] by (intro rerun_overlay) simp
  with StartChanged show ?thesis by (simp add: map_step_def)
next
  case (EndChanged l)
  have "overlay_inv (rerun lib (s\<lparr> end' := Some l \<rparr>))"
    using overlay_attached [OF assms] by (intro rerun_overlay) simp
  with EndChanged show ?thesis by (simp add: map_step_def)
next
  case (ModeChanged m)
  have "overlay_inv (rerun lib (s\<lparr> transportMode := m \<rparr>))"
    using overlay_attached [OF assms] by (intro rerun_overlay) simp
  with ModeChanged assms show ?thesis by (simp add: map_step_def)
next
  case (RoutesFound c)
  with assms show ?thesis by (simp add: map_step_def on_routesfound_overlay)
qed

lemma overlay_inv_initial: "overlay_inv initial_map_run"
  by (simp add: overlay_inv_def initial_map_run_def)

lemma map_steps_overlay: "overlay_inv s \<Longrightarrow> overlay_inv (map_steps lib osrm s evs)"
  unfolding map_steps_def
  by (induction evs arbitrary: s) (simp_all add: map_step_overlay)

lemma map_step_up_to_date:
  assumes "overlay_inv s" and "up_to_date osrm s"
    and "case ev of RoutesFound c \<Rightarrow> routingControlRef s = Some c | _ \<Rightarrow> True"
  shows "up_to_date osrm (map_step lib osrm s ev)"
proof (cases ev)
  case (StartChanged l)
  have "routeSummary (rerun lib (s\<lparr> start := Some l \<rparr>)) = None"
    using overlay_attached [OF assms(1)] by (intro rerun_overlay) simp
  with StartChanged show ?thesis by (simp add: map_step_def up_to_date_None)
next
  case (EndChanged l)
  have "routeSummary (rerun lib (s\<lparr> end' := Some l \<rparr>)) = None"
    using overlay_attached [OF assms(1)] by (intro rerun_overlay) simp
  with EndChanged show ?thesis by (simp add: map_step_def up_to_date_None)
next
  case (ModeChanged m)
  have "routeSummary (rerun lib (s\<lparr> transportMode := m \<rparr>)) = None"
    using overlay_attached [OF assms(1)] by (intro rerun_overlay) simp
  with ModeChanged assms(2) show ?thesis by (simp add: map_step_def up_to_date_None)
next
  case (RoutesFound c)
  with assms(3) have ref: "routingControlRef s = Some c" by simp
  with assms(1) have c: "c < length (controls s)" "current_request s = Some (controls s ! c)"
    by (simp_all add: overlay_inv_def)
  from on_routesfound_current [OF c(2) assms(2)] RoutesFound c(1) show ?thesis
    by (simp add: map_step_def)
qed

lemma map_steps_up_to_date:
  "removed_silent lib osrm s evs \<Longrightarrow> overlay_inv s \<Longrightarrow> up_to_date osrm s \<Longrightarrow>
   up_to_date osrm (map_steps lib osrm s evs)"
  unfolding map_steps_def
proof (induction evs arbitrary: s)
  case Nil
  then show ?case by simp
next
  case (Cons ev evs)
  from Cons.prems have "up_to_date osrm (map_step lib osrm s ev)"
    by (intro map_step_up_to_date) simp_all
  moreover from Cons.prems have "overlay_inv (map_step lib osrm s ev)"
    by (intro map_step_overlay)
  moreover from Cons.prems have "removed_silent lib osrm (map_step lib osrm s ev) evs"
    by simp
  ultimately show ?case
    using Cons.IH by simp
qed


lemma request_attached:
  assumes "attached s = []"
  shows "\<forall>c \<in> set (attached (request lib s)). length (controls s) \<le> c"
  using assms
  by (cases "start s"; cases "end' s"; cases lib) (simp_all add: request_def Let_def)

text \<open>
  C2, as stated, fails.  Requests are issued for (Paris, Lyon, car), then for
  (Paris, Nice, car) and (Paris, Nice, foot) as the end and the mode change.  The last
  control delivers its routes, then the first one does.  The summary on display is the one
  of (Paris, Lyon, car) while the inputs are (Paris, Nice, foot).
\<close>

theorem late_route_counterexample:
  "current_request (map_steps Loaded router initial_map_run
      [StartChanged paris, EndChanged lyon, EndChanged nice, ModeChanged foot,
       RoutesFound 2, RoutesFound 0]) = Some (control_for paris nice foot)
   \<and> routeSummary (map_steps Loaded router initial_map_run
      [StartChanged paris, EndChanged lyon, EndChanged nice, ModeChanged foot,
       RoutesFound 2, RoutesFound 0]) = Some \<lparr> totalDistance = 5000, totalTime = 300 \<rparr>
   \<and> router (control_for paris lyon car) = Some [\<lparr> totalDistance = 5000, totalTime = 300 \<rparr>]
   \<and> router (control_for paris nice foot) = Some [\<lparr> totalDistance = 10000, totalTime = 7200 \<rparr>]
   \<and> \<not> up_to_date router (map_steps Loaded router initial_map_run
      [StartChanged paris, EndChanged lyon, EndChanged nice, ModeChanged foot,
       RoutesFound 2, RoutesFound 0])"
  by code_simp

text \<open>
  C2, amended.  When a control delivers \<^verbatim>\<open>routesfound\<close> with at least one route, the
  handler displays the summary of the first route, whether or not the control is still the
  current one: a late answer for superseded inputs is displayed, not discarded.  In a run
  where a control delivers only while it is the one kept in \<^verbatim>\<open>routingControlRef\<close>, the
  summary on display is always absent or the one found for the current start, end and mode.
\<close>

theorem summary_follows_delivery:
  "(c < length (controls s) \<and> osrm (controls s ! c) = Some (r # rs) \<longrightarrow>
      routeSummary (map_step lib osrm s (RoutesFound c)) = Some r)
   \<and> (removed_silent lib osrm initial_map_run evs \<longrightarrow>
        up_to_date osrm (map_steps lib osrm initial_map_run evs))"
proof (intro conjI impI)
  assume "c < length (controls s) \<and> osrm (controls s ! c) = Some (r # rs)"
  then show "routeSummary (map_step lib osrm s (RoutesFound c)) = Some r"
    by (simp add: map_step_def on_routesfound_def)
next
  assume "removed_silent lib osrm initial_map_run evs"
  then show "up_to_date osrm (map_steps lib osrm initial_map_run evs)"
  proof (rule map_steps_up_to_date)
    show "overlay_inv (initial_map_run :: 'a map_run)"
      by (rule overlay_inv_initial)
    show "up_to_date osrm (initial_map_run :: 'a map_run)"
      by (rule up_to_date_None) (simp add: initial_map_run_def)
  qed
qed

theorem summary_follows_delivery_witness:
  "removed_silent Loaded router initial_map_run
      [StartChanged paris, EndChanged lyon, EndChanged nice, ModeChanged foot, RoutesFound 2]
   \<and> up_to_date router (map_steps Loaded router initial_map_run
        [StartChanged paris, EndChanged lyon, EndChanged nice, ModeChanged foot, RoutesFound 2])
   \<and> 0 < length (controls (map_steps Loaded router initial_map_run
        [StartChanged paris, EndChanged lyon, EndChanged nice, ModeChanged foot]))
   \<and> routeSummary (map_step Loaded router (map_steps Loaded router initial_map_run
        [StartChanged paris, EndChanged lyon, EndChanged nice, ModeChanged foot]) (RoutesFound 0))
       = Some \<lparr> totalDistance = 5000, totalTime = 300 \<rparr>"
proof -
  let ?evs = "[StartChanged paris, EndChanged lyon, EndChanged nice, ModeChanged foot]"
  let ?s = "map_steps Loaded router initial_map_run ?evs"
  have silent: "removed_silent Loaded router initial_map_run (?evs @ [RoutesFound 2])"
    by code_simp
  have first: "0 < length (controls ?s)
      \<and> router (controls ?s ! 0) = Some [\<lparr> totalDistance = 5000, totalTime = 300 \<rparr>]"
    by code_simp
  from summary_follows_delivery [of 0 ?s router _ "[]" Loaded "?evs @ [RoutesFound 2]"]
    silent first
  show ?thesis by simp
qed

text \<open>
  C3, as stated, fails.  The request for (Paris, Lyon, car) is pending when the mode changes
  to foot; the removed control then delivers its routes.  The mode is foot and the summary
  on display is the one of (Paris, Lyon, car), which is not the one of (Paris, Lyon, foot).
\<close>

theorem superseded_summary_counterexample:
  "transportMode (map_steps Loaded router initial_map_run
      [StartChanged paris, EndChanged lyon, ModeChanged foot, RoutesFound 0]) = foot
   \<and> routeSummary (map_steps Loaded router initial_map_run
      [StartChanged paris, EndChanged lyon, ModeChanged foot, RoutesFound 0])
       = Some \<lparr> totalDistance = 5000, totalTime = 300 \<rparr>
   \<and> router (control_for paris lyon car) = Some [\<lparr> totalDistance = 5000, totalTime = 300 \<rparr>]
   \<and> router (control_for paris lyon foot) = Some [\<lparr> totalDistance = 5000, totalTime = 3600 \<rparr>]"
  by code_simp

text \<open>
  C3, amended.  In every state the component can reach, when start, end or transport mode
  changes, the step is the creation of the new control on a state in which the summary has
  been reset, no control is on the map and no control has been created since the change.
  After the step no summary is displayed, and no control that existed before the change is
  on the map.
\<close>

theorem change_clears_before_request:
  assumes "s = map_steps lib osrm initial_map_run evs"
    and "ev = StartChanged l \<and> s' = s\<lparr> start := Some l \<rparr>
       \<or> ev = EndChanged l \<and> s' = s\<lparr> end' := Some l \<rparr>
       \<or> ev = ModeChanged m \<and> m \<noteq> transportMode s \<and> s' = s\<lparr> transportMode := m \<rparr>"
  shows "map_step lib osrm s ev = request lib (teardown (effect_cleanup s'))
    \<and> routeSummary (teardown (effect_cleanup s')) = None
    \<and> attached (teardown (effect_cleanup s')) = []
    \<and> controls (teardown (effect_cleanup s')) = controls s
    \<and> routeSummary (map_step lib osrm s ev) = None
    \<and> (\<forall>c \<in> set (attached (map_step lib osrm s ev)). length (controls s) \<le> c)"
proof -
  have "overlay_inv s"
    unfolding assms(1) by (rule map_steps_overlay) (rule overlay_inv_initial)
  from overlay_attached [OF this] assms(2)
  have att: "attached s' = (case routingControlRef s' of None \<Rightarrow> [] | Some c \<Rightarrow> [c])"
    and ctl: "controls s' = controls s"
    by auto
  from assms(2) have step: "map_step lib osrm s ev = request lib (teardown (effect_cleanup s'))"
    by (auto simp add: map_step_def rerun_def RoutingMachine_effect_def)
  note td = teardown_cleanup [OF att]
  from request_attached [OF td(2), of lib] td(4) ctl
  have "\<forall>c \<in> set (attached (request lib (teardown (effect_cleanup s')))). length (controls s) \<le> c"
    by simp
  with step td(1,2,4) ctl show ?thesis
    by (simp add: request_keeps_summary)
qed

theorem change_clears_before_request_witness:
  "routeSummary (map_steps Loaded router initial_map_run
      [StartChanged paris, EndChanged lyon, RoutesFound 0])
     = Some \<lparr> totalDistance = 5000, totalTime = 300 \<rparr>
   \<and> routeSummary (map_step Loaded router (map_steps Loaded router initial_map_run
      [StartChanged paris, EndChanged lyon, RoutesFound 0]) (ModeChanged foot)) = None
   \<and> attached (map_step Loaded router (map_steps Loaded router initial_map_run
      [StartChanged paris, EndChanged lyon, RoutesFound 0]) (ModeChanged foot)) = [1]"
proof -
  let ?s = "map_steps Loaded router initial_map_run
      [StartChanged paris, EndChanged lyon, RoutesFound 0]"
  have shown: "routeSummary ?s = Some \<lparr> totalDistance = 5000, totalTime = 300 \<rparr>"
    by code_simp
  have mode: "foot \<noteq> transportMode ?s"
    by code_simp
  have att: "attached (map_step Loaded router ?s (ModeChanged foot)) = [1]"
    by code_simp
  from mode have change: "ModeChanged foot = StartChanged paris
         \<and> ?s\<lparr> transportMode := foot \<rparr> = ?s\<lparr> start := Some paris \<rparr>
       \<or> ModeChanged foot = EndChanged paris
         \<and> ?s\<lparr> transportMode := foot \<rparr> = ?s\<lparr> end' := Some paris \<rparr>
       \<or> ModeChanged foot = ModeChanged foot \<and> foot \<noteq> transportMode ?s
         \<and> ?s\<lparr> transportMode := foot \<rparr> = ?s\<lparr> transportMode := foot \<rparr>"
    by blast
  from change_clears_before_request [OF refl change]
  have "routeSummary (map_step Loaded router ?s (ModeChanged foot)) = None"
    by (elim conjE)
  with shown att show ?thesis by blast
qed

section \<open>URI components\<close>

lemma hex_digits:
  "\<forall>d \<in> set [0..<16]. hex_value (hex_digit d) = Some d \<and> hex_digit d \<noteq> CHR ''|''"
  by code_simp

lemma hex_value_hex_digit: "d < 16 \<Longrightarrow> hex_value (hex_digit d) = Some d"
  using hex_digits by simp

lemma hex_digit_not_bar: "d < 16 \<Longrightarrow> hex_digit d \<noteq> CHR ''|''"
  using hex_digits by simp

lemma of_char_less_256: "(of_char c :: nat) < 256"
  by (cases c) simp

lemma octet_escape:
  "octet (hex_digit (of_char c div 16)) (hex_digit (of_char c mod 16)) = Some (of_char c)"
proof -
  have "(of_char c :: nat) div 16 < 16"
    using of_char_less_256 [of c] by arith
  moreover have "(of_char c :: nat) mod 16 < 16"
    by simp
  ultimately show ?thesis
    by (simp add: octet_def hex_value_hex_digit)
qed

lemma unreserved_ascii:
  assumes "unreserved c"
  shows "(of_char c :: nat) < 128" and "c \<noteq> CHR ''%''" and "c \<noteq> CHR ''|''"
  using assms by (auto simp add: unreserved_def)

lemma bar_not_in_escape: "CHR ''|'' \<notin> set (escape c)"
proof -
  have "(of_char c :: nat) div 16 < 16"
    using of_char_less_256 [of c] by arith
  moreover have "(of_char c :: nat) mod 16 < 16"
    by simp
  ultimately have "hex_digit (of_char c div 16) \<noteq> CHR ''|''"
    and "hex_digit (of_char c mod 16) \<noteq> CHR ''|''"
    by (simp_all add: hex_digit_not_bar)
  then show ?thesis
    by (simp add: escape_def)
qed

lemma bar_not_in_encoded:
  "CHR ''|'' \<notin> set (concat (map (\<lambda>c. if unreserved c then [c] else escape c) s))"
  using bar_not_in_escape unreserved_ascii(3) by (induction s) auto

lemma Decode_escape_first:
  "Decode [] 0 (escape c @ t) =
     (let n = leading_ones (of_char c)
      in if n = 0 then emit [c] (Decode [] 0 t)
         else if n = 1 \<or> 4 < n then Inl URIError
         else Decode [of_char c] (n - 1) t)"
  by (simp add: escape_def octet_escape Let_def)

lemma Decode_escape_next:
  "0 < j \<Longrightarrow> Decode octets j (escape c @ t) =
     (if j = 1
      then (if utf8_sequence (octets @ [of_char c])
            then emit (map char_of (octets @ [of_char c])) (Decode [] 0 t)
            else Inl URIError)
      else Decode (octets @ [of_char c]) (j - 1) t)"
  by (simp add: escape_def octet_escape)

lemma Decode_unreserved:
  "unreserved c \<Longrightarrow> Decode [] 0 (c # t) = emit [c] (Decode [] 0 t)"
  by (simp add: unreserved_ascii(2))

lemma not_unreserved: "128 \<le> (of_char c :: nat) \<Longrightarrow> \<not> unreserved c"
  using unreserved_ascii(1) [of c] by auto


lemma continuation_reserved: "continuation (of_char c) \<Longrightarrow> \<not> unreserved c"
  by (rule not_unreserved) (simp add: continuation_def)

lemma leading_ones_reserved: "leading_ones (of_char c) \<noteq> 0 \<Longrightarrow> \<not> unreserved c"
  by (rule not_unreserved) (simp add: leading_ones_def split: if_splits)

lemma utf8_sequence_second:
  "128 \<le> b2" if "utf8_sequence (b1 # b2 # bs)"
proof (cases bs)
  case Nil
  then show ?thesis
    using that by (simp add: continuation_def)
next
  case (Cons b3 bs3)
  show ?thesis
  proof (cases bs3)
    case Nil
    with Cons that show ?thesis
      by (auto simp add: continuation_def)
  next
    case (Cons b4 bs4)
    with \<open>bs = b3 # bs3\<close> that show ?thesis
      by (cases bs4) (auto simp add: continuation_def)
  qed
qed


lemma Decode_encoded:
  "well_formed s \<Longrightarrow>
   Decode [] 0 (concat (map (\<lambda>c. if unreserved c then [c] else escape c) s)) = Inr s"
proof (induction s rule: well_formed.induct)
  case 1
  show ?case by simp
next
  case (2 c cs)
  let ?enc = "\<lambda>s. concat (map (\<lambda>c. if unreserved c then [c] else escape c) s)"
  let ?n = "leading_ones (of_char c)"
  from "2.prems" have n: "?n = 0 \<or> ?n = 2 \<or> ?n = 3 \<or> ?n = 4"
    by (auto simp add: Let_def split: if_splits)
  then consider (one) "?n = 0" | (two) "?n = 2" | (three) "?n = 3" | (four) "?n = 4"
    by auto
  then show ?case
  proof cases
    case one
    with "2.prems" have "well_formed cs"
      by (simp add: Let_def)
    with "2.IH"(1) [OF refl one] have rest: "Decode [] 0 (?enc cs) = Inr cs"
      by simp
    show ?thesis
    proof (cases "unreserved c")
      case True
      with rest show ?thesis
        by (simp add: unreserved_ascii(2) emit_def)
    next
      case False
      with rest one show ?thesis
        using Decode_escape_first [of c "?enc cs"] by (simp add: emit_def)
    qed
  next
    case two
    with "2.prems" obtain c2 r where cs: "cs = c2 # r"
      and seq: "utf8_sequence [of_char c, of_char c2]" and wf: "well_formed r"
      by (auto simp add: Let_def split: list.splits)
    from two have c: "\<not> unreserved c"
      by (intro leading_ones_reserved) simp
    from utf8_sequence_second [OF seq] have c2: "\<not> unreserved c2"
      by (rule not_unreserved)
    from "2.IH"(2) [OF refl _ two cs wf] two have rest: "Decode [] 0 (?enc r) = Inr r"
      by simp
    have "Decode [] 0 (?enc (c # cs)) = Decode [] 0 (escape c @ escape c2 @ ?enc r)"
      using c c2 cs by simp
    also have "\<dots> = Decode [of_char c] 1 (escape c2 @ ?enc r)"
      using two by (simp add: Decode_escape_first)
    also have "\<dots> = Inr (c # c2 # r)"
      using seq rest by (simp add: Decode_escape_next emit_def)
    finally show ?thesis
      using cs by simp
  next
    case three
    with "2.prems" obtain c2 c3 r where cs: "cs = c2 # c3 # r"
      and seq: "utf8_sequence [of_char c, of_char c2, of_char c3]" and wf: "well_formed r"
      by (auto simp add: Let_def split: list.splits)
    from three have c: "\<not> unreserved c"
      by (intro leading_ones_reserved) simp
    from utf8_sequence_second [OF seq] have c2: "\<not> unreserved c2"
      by (rule not_unreserved)
    from seq have c3: "\<not> unreserved c3"
      by (intro continuation_reserved) simp
    from "2.IH"(3) [OF refl _ _ three cs _ wf] three have rest: "Decode [] 0 (?enc r) = Inr r"
      by simp
    have "Decode [] 0 (?enc (c # cs)) = Decode [] 0 (escape c @ escape c2 @ escape c3 @ ?enc r)"
      using c c2 c3 cs by simp
    also have "\<dots> = Decode [of_char c] 2 (escape c2 @ escape c3 @ ?enc r)"
      using three by (simp add: Decode_escape_first)
    also have "\<dots> = Decode [of_char c, of_char c2] 1 (escape c3 @ ?enc r)"
      by (simp add: Decode_escape_next)
    also have "\<dots> = Inr (c # c2 # c3 # r)"
      using seq rest by (simp add: Decode_escape_next emit_def)
    finally show ?thesis
      using cs by simp
  next
    case four
    with "2.prems" obtain c2 c3 c4 r where cs: "cs = c2 # c3 # c4 # r"
      and seq: "utf8_sequence [of_char c, of_char c2, of_char c3, of_char c4]"
      and wf: "well_formed r"
      by (auto simp add: Let_def split: list.splits)
    from four have c: "\<not> unreserved c"
      by (intro leading_ones_reserved) simp
    from utf8_sequence_second [OF seq] have c2: "\<not> unreserved c2"
      by (rule not_unreserved)
    from seq have c3: "\<not> unreserved c3" and c4: "\<not> unreserved c4"
      by (simp_all add: continuation_reserved)
    from "2.IH"(4) [OF refl _ _ _ four cs _ _ wf] four have rest: "Decode [] 0 (?enc r) = Inr r"
      by simp
    have "Decode [] 0 (?enc (c # cs))
        = Decode [] 0 (escape c @ escape c2 @ escape c3 @ escape c4 @ ?enc r)"
      using c c2 c3 c4 cs by simp
    also have "\<dots> = Decode [of_char c] 3 (escape c2 @ escape c3 @ escape c4 @ ?enc r)"
      using four by (simp add: Decode_escape_first)
    also have "\<dots> = Decode [of_char c, of_char c2] 2 (escape c3 @ escape c4 @ ?enc r)"
      by (simp add: Decode_escape_next)
    also have "\<dots> = Decode [of_char c, of_char c2, of_char c3] 1 (escape c4 @ ?enc r)"
      by (simp add: Decode_escape_next)
    also have "\<dots> = Inr (c # c2 # c3 # c4 # r)"
      using seq rest by (simp add: Decode_escape_next emit_def)
    finally show ?thesis
      using cs by simp
  qed
qed


lemma decode_encode:
  "encodeURIComponent s = Inr t \<Longrightarrow> decodeURIComponent t = Inr s"
  by (auto simp add: encodeURIComponent_def decodeURIComponent_def Decode_encoded
      split: if_splits)

lemma encode_no_bar: "encodeURIComponent s = Inr t \<Longrightarrow> CHR ''|'' \<notin> set t"
  using bar_not_in_encoded [of s]
  by (auto simp add: encodeURIComponent_def split: if_splits)

section \<open>The shareable link\<close>

lemma split_single: "sep \<notin> set a \<Longrightarrow> split sep a = [a]"
  by (induction a) auto

lemma split_first: "sep \<notin> set a \<Longrightarrow> split sep (a @ sep # t) = a # split sep t"
  by (induction a) (auto simp add: split_nonempty split: list.splits)

lemma split_three:
  assumes "sep \<notin> set a" and "sep \<notin> set b" and "sep \<notin> set c"
  shows "split sep (a @ [sep] @ b @ [sep] @ c) = [a, b, c]"
  using assms by (simp add: split_first split_single)

lemma parse_location_rendered:
  assumes "CHR ''|'' \<notin> set a" and "CHR ''|'' \<notin> set b" and "encodeURIComponent n = Inr t"
  shows "parse_location parseFloat (a @ ''|'' @ b @ ''|'' @ t)
    = Inr \<lparr> lat = parseFloat a, lng = parseFloat b, name = n \<rparr>"
proof -
  from assms(3) have "CHR ''|'' \<notin> set t"
    by (rule encode_no_bar)
  with assms(1,2) have "split CHR ''|'' (a @ ''|'' @ b @ ''|'' @ t) = [a, b, t]"
    using split_three [of "CHR ''|''" a b t] by simp
  with decode_encode [OF assms(3)] show ?thesis
    by (simp add: parse_location_def at_index_def string_of_def)
qed

text \<open>
  C8.  Take a state with a start and an end whose names are well-formed strings, and number
  conversions such that each of the four coordinates is read back by \<^verbatim>\<open>parseFloat\<close> from
  its text, which has no \<^verbatim>\<open>|\<close>.  Then writing the state into the query parameters
  succeeds, and reading these parameters into any state gives that state with the same
  start (coordinates and name), the same end and the same transport mode.
\<close>

theorem link_round_trip:
  fixes s :: "('n, 'y) app_scheme" and s0 :: "('n, 'z) app_scheme"
  assumes "start s = Some st" and "end' s = Some en"
    and "well_formed (name st)" and "well_formed (name en)"
    and "\<forall>x \<in> {lat st, lng st, lat en, lng en}.
           parseFloat (ToString x) = x \<and> CHR ''|'' \<notin> set (ToString x)"
  shows "\<exists>p. update_url ToString s = Inr p
    \<and> load_url parseFloat p s0
        = Inr (s0\<lparr> start := Some st, end' := Some en, transportMode := transportMode s \<rparr>)"
proof -
  obtain ts where ts: "encodeURIComponent (name st) = Inr ts"
    using assms(3) by (simp add: encodeURIComponent_def)
  obtain te where te: "encodeURIComponent (name en) = Inr te"
    using assms(4) by (simp add: encodeURIComponent_def)
  let ?sp = "ToString (lat st) @ ''|'' @ ToString (lng st) @ ''|'' @ ts"
  let ?ep = "ToString (lat en) @ ''|'' @ ToString (lng en) @ ''|'' @ te"
  let ?p = "[''start'' \<mapsto> ?sp, ''end'' \<mapsto> ?ep, ''mode'' \<mapsto> mode_string (transportMode s)]"
  have written: "update_url ToString s = Inr ?p"
    using assms(1,2) ts te by (simp add: update_url_def set_location_def)
  have "parse_location parseFloat ?sp
      = Inr \<lparr> lat = parseFloat (ToString (lat st)), lng = parseFloat (ToString (lng st)),
              name = name st \<rparr>"
    using assms(5) ts by (intro parse_location_rendered) simp_all
  with assms(5) have sp: "parse_location parseFloat ?sp = Inr st"
    by simp
  have "parse_location parseFloat ?ep
      = Inr \<lparr> lat = parseFloat (ToString (lat en)), lng = parseFloat (ToString (lng en)),
              name = name en \<rparr>"
    using assms(5) te by (intro parse_location_rendered) simp_all
  with assms(5) have ep: "parse_location parseFloat ?ep = Inr en"
    by simp
  have "load_url parseFloat ?p s0
      = Inr (s0\<lparr> start := Some st, end' := Some en, transportMode := transportMode s \<rparr>)"
    using sp ep
    by (cases "transportMode s")
      (simp_all add: load_url_def Let_def Boolean_def string_of_def mode_string_def)
  with written show ?thesis
    by blast
qed


text \<open>
  An instance: a number is given by its decimal text, so that both conversions are the
  identity; the name of the end has a \<^verbatim>\<open>|\<close> and a space.
\<close>

theorem link_round_trip_witness:
  "\<exists>p. update_url (\<lambda>x. x)
         ((initial_app :: string app)
            \<lparr> start := Some \<lparr> lat = ''48.8566'', lng = ''2.3522'', name = ''Paris'' \<rparr>,
              end' := Some \<lparr> lat = ''45.764'', lng = ''4.8357'', name = ''Lyon | Part-Dieu'' \<rparr>,
              transportMode := bike \<rparr>) = Inr p
     \<and> load_url (\<lambda>x. x) p (initial_app :: string app)
         = Inr ((initial_app :: string app)
            \<lparr> start := Some \<lparr> lat = ''48.8566'', lng = ''2.3522'', name = ''Paris'' \<rparr>,
              end' := Some \<lparr> lat = ''45.764'', lng = ''4.8357'', name = ''Lyon | Part-Dieu'' \<rparr>,
              transportMode := bike \<rparr>)"
proof -
  let ?st = "\<lparr> lat = ''48.8566'', lng = ''2.3522'', name = ''Paris'' \<rparr>"
  let ?en = "\<lparr> lat = ''45.764'', lng = ''4.8357'', name = ''Lyon | Part-Dieu'' \<rparr>"
  let ?s = "(initial_app :: string app)\<lparr> start := Some ?st, end' := Some ?en,
              transportMode := bike \<rparr>"
  have names: "well_formed (name ?st)" "well_formed (name ?en)"
    by (simp_all add: leading_ones_def)
  have numbers: "\<forall>x \<in> {lat ?st, lng ?st, lat ?en, lng ?en}.
      (\<lambda>x. x) ((\<lambda>x. x) x) = x \<and> CHR ''|'' \<notin> set ((\<lambda>x. x) x)"
    by simp
  have "start ?s = Some ?st" and "end' ?s = Some ?en" and "transportMode ?s = bike"
    by simp_all
  from link_round_trip [of ?s ?st ?en "\<lambda>x. x" "\<lambda>x. x" "initial_app :: string app",
      OF this(1,2) names numbers] this(3)
  show ?thesis by simp
qed

text \<open>
  C9 fails on the code.  The link \<^verbatim>\<open>?start=abc&end=1|2|%&mode=plane\<close> is read at startup.
  The mode is not one of the three and is ignored; the name of the end is not a valid
  escape, \<^verbatim>\<open>decodeURIComponent\<close> throws and the \<^verbatim>\<open>catch\<close> ignores the field.  The
  start has no delimiter: nothing throws, and the start is set, to the numbers
  \<^verbatim>\<open>parseFloat\<close> makes of \<^verbatim>\<open>"abc"\<close> and of \<^verbatim>\<open>undefined\<close> and to the name
  \<^verbatim>\<open>"undefined"\<close>.
\<close>

theorem malformed_start_is_applied:
  "load_url parseFloat [''start'' \<mapsto> ''abc'', ''end'' \<mapsto> ''1|2|%'', ''mode'' \<mapsto> ''plane'']
     (initial_app :: 'n app)
   = Inr (initial_app\<lparr> start := Some \<lparr> lat = parseFloat ''abc'',
                                       lng = parseFloat ''undefined'',
                                       name = ''undefined'' \<rparr> \<rparr>)"
  by (simp add: load_url_def parse_location_def decodeURIComponent_def at_index_def
      string_of_def Boolean_def emit_def Let_def)

end
